theory Spec2Isabelle
  imports Complex_Main "HOL-Library.AList"
begin

section \<open>UAV deconfliction: data model\<close>

text \<open>
  A shallow embedding of \<^verbatim>\<open>src/drone.py\<close>, \<^verbatim>\<open>src/utils.py\<close>, \<^verbatim>\<open>src/conflict.py\<close> and
  \<^verbatim>\<open>src/deconfliction.py\<close>.

  \<^item> A \<^verbatim>\<open>datetime\<close> is an instant on one time line, an \<open>int\<close> (microseconds); only its
    order and differences are used. A \<^verbatim>\<open>timedelta\<close> is an \<open>int\<close> as well.
  \<^item> A stored coordinate and the safety buffer are the \<open>real\<close> value of a finite Python
    number. The result of an arithmetic operation on them is a \<open>float_val\<close>; what the
    operations return (rounding, infinities, overflow) is a parameter of the model, see
    \<open>float_ops\<close>.
  \<^item> A Python \<^verbatim>\<open>dict\<close> is an association list in insertion order, written with
    \<open>AList.update\<close> (an existing key keeps its place, a new key goes last) and read with
    \<open>map_of\<close>; \<^verbatim>\<open>len\<close> of the dict is the length of the list.
  \<^item> Logging and the \<^verbatim>\<open>log_performance_metrics\<close> decorator only write log lines and are
    left out.
  \<^item> A leading underscore of a Python name is dropped, \<^verbatim>\<open>id\<close> is \<open>did\<close>,
    \<^verbatim>\<open>type\<close> is \<open>ctype\<close>, and a waypoint's \<^verbatim>\<open>x, y, z\<close> are \<open>wp_x, wp_y, wp_z\<close>.
\<close>

type_synonym instant = int
type_synonym point = "real \<times> real \<times> real"

record Waypoint =
  wp_x :: real
  wp_y :: real
  wp_z :: real
  timestamp :: instant

record Drone =
  did :: string
  waypoints :: "Waypoint list"
  start_time :: instant
  end_time :: instant

record ConflictPoint =
  drone_id :: string
  point :: point
  ctype :: string
  severity :: string

text \<open>
  Every exception the modelled code can raise. The first five are \<^verbatim>\<open>ValueError\<close>s: the
  three of \<^verbatim>\<open>Drone.__post_init__\<close>, the capacity check of \<^verbatim>\<open>add_simulated_drone\<close>, and the one
  scipy's \<^verbatim>\<open>KDTree\<close> raises for data that is not of shape (n, m). \<open>KeyError\<close> is a failed
  dict lookup, \<open>OverflowError\<close> what Python's \<^verbatim>\<open>**\<close> raises when its result is out of range.
\<close>

datatype value_error =
    NoWaypoints
  | EndNotAfterStart
  | InvalidCoordinates point
  | MaximumDronesExceeded int
  | KDTreeShape

datatype error = ValueError value_error | KeyError string | OverflowError

text \<open>
  The conflict cache holds booleans (temporal checks) and lists of conflict points (spatial
  checks) in one dict; \<open>truthy\<close> is Python's truth value of such an entry.
\<close>

datatype cache_val = CBool bool | CList "ConflictPoint list"

fun truthy :: "cache_val \<Rightarrow> bool" where
  "truthy (CBool b) = b"
| "truthy (CList cs) = (cs \<noteq> [])"

record DeconflictionSystem =
  safety_buffer :: real
  max_simulated_drones :: int
  simulated_drones :: "(string \<times> Drone) list"
  spatial_index :: "point list option"
  time_index :: "(instant \<times> string list) list"
  conflict_cache :: "(string \<times> cache_val) list"

record time_overlap =
  overlap_start :: instant
  overlap_end :: instant

record conflict_entry =
  conflicting_drone :: string
  conflict_locations :: cache_val
  overlap :: time_overlap

record performance =
  spatial_checks :: nat
  temporal_checks :: nat
  cache_hits :: nat
  total_drones :: nat
  validation_time :: "int option"

record results =
  status :: string
  conflicts :: "conflict_entry list"
  perf :: performance

section \<open>Mission construction (\<^verbatim>\<open>src/drone.py\<close>, \<^verbatim>\<open>src/utils.py\<close>)\<close>

definition validate_coordinates :: "real \<Rightarrow> real \<Rightarrow> real \<Rightarrow> bool" where
  "validate_coordinates x y z =
     (let MAX_XY = 10000; MAX_Z = 500
      in \<bar>x\<bar> \<le> MAX_XY \<and> \<bar>y\<bar> \<le> MAX_XY \<and> \<bar>z\<bar> \<le> MAX_Z)"

text \<open>The loop of \<^verbatim>\<open>__post_init__\<close> over the waypoints: it raises at the first bad one.\<close>

fun validate_waypoints :: "Waypoint list \<Rightarrow> error + unit" where
  "validate_waypoints [] = Inr ()"
| "validate_waypoints (waypoint # rest) =
     (if \<not> validate_coordinates (wp_x waypoint) (wp_y waypoint) (wp_z waypoint)
      then Inl (ValueError (InvalidCoordinates (wp_x waypoint, wp_y waypoint, wp_z waypoint)))
      else validate_waypoints rest)"

definition post_init :: "Drone \<Rightarrow> error + unit" where
  "post_init self =
     (if waypoints self = [] then Inl (ValueError NoWaypoints)
      else if end_time self \<le> start_time self then Inl (ValueError EndNotAfterStart)
      else validate_waypoints (waypoints self))"

text \<open>
  \<^verbatim>\<open>Drone\<close> is decorated with \<^verbatim>\<open>@dataclass\<close> and also defines \<^verbatim>\<open>__init__\<close> in its body. A
  dataclass does not replace an \<^verbatim>\<open>__init__\<close> the class defines, and only the generated
  \<^verbatim>\<open>__init__\<close> calls \<^verbatim>\<open>__post_init__\<close>. So constructing a \<^verbatim>\<open>Drone\<close> runs the four assignments
  of the written \<^verbatim>\<open>__init__\<close> and nothing else; \<open>post_init\<close> is never run by it.
\<close>

definition Drone_init :: "string \<Rightarrow> Waypoint list \<Rightarrow> instant \<Rightarrow> instant \<Rightarrow> error + Drone" where
  "Drone_init i wps st et =
     Inr \<lparr>did = i, waypoints = wps, start_time = st, end_time = et\<rparr>"

definition get_time_range :: "Drone \<Rightarrow> instant \<times> instant" where
  "get_time_range self = (start_time self, end_time self)"

section \<open>The engine (\<^verbatim>\<open>src/deconfliction.py\<close>)\<close>

definition DeconflictionSystem_init :: "real \<Rightarrow> int \<Rightarrow> DeconflictionSystem" where
  "DeconflictionSystem_init buffer max_drones =
     \<lparr>safety_buffer = buffer, max_simulated_drones = max_drones, simulated_drones = [],
      spatial_index = None, time_index = [], conflict_cache = []\<rparr>"

text \<open>
  The spatial index is a scipy \<^verbatim>\<open>KDTree\<close> that the engine builds and never queries; the
  model keeps its \<^verbatim>\<open>data\<close> array, the list of points. \<^verbatim>\<open>KDTree(points)\<close> raises
  \<^verbatim>\<open>ValueError\<close> when \<^verbatim>\<open>points\<close> is empty (an empty list is a one-dimensional array, not
  one of shape (n, m)); every other list the engine passes is a list of triples.
\<close>

definition KDTree :: "point list \<Rightarrow> error + point list" where
  "KDTree points = (if points = [] then Inl (ValueError KDTreeShape) else Inr points)"

text \<open>One round of the loop over \<^verbatim>\<open>[start_time, end_time]\<close> in \<^verbatim>\<open>_update_indexes\<close>.\<close>

definition index_time :: "string \<Rightarrow> (instant \<times> string list) list \<Rightarrow> instant \<Rightarrow> (instant \<times> string list) list" where
  "index_time i ti t =
     (let ti1 = (if map_of ti t = None then AList.update t [] ti else ti)
      in case map_of ti1 t of
           Some bucket \<Rightarrow> AList.update t (bucket @ [i]) ti1
         | None \<Rightarrow> ti1)"

definition update_indexes :: "DeconflictionSystem \<Rightarrow> Drone \<Rightarrow> (error + unit) \<times> DeconflictionSystem" where
  "update_indexes self drone =
     (let points =
            (case spatial_index self of
               None \<Rightarrow> map (\<lambda>wp. (wp_x wp, wp_y wp, wp_z wp)) (waypoints drone)
             | Some data \<Rightarrow> data @ map (\<lambda>wp. (wp_x wp, wp_y wp, wp_z wp)) (waypoints drone))
      in case KDTree points of
           Inl e \<Rightarrow> (Inl e, self)
         | Inr tree \<Rightarrow>
             (let self1 = self\<lparr>spatial_index := Some tree\<rparr>;
                  (st, et) = get_time_range drone
              in (Inr (),
                  self1\<lparr>time_index := foldl (index_time (did drone)) (time_index self1) [st, et]\<rparr>)))"

definition add_simulated_drone :: "DeconflictionSystem \<Rightarrow> Drone \<Rightarrow> (error + unit) \<times> DeconflictionSystem" where
  "add_simulated_drone self drone =
     (if int (length (simulated_drones self)) \<ge> max_simulated_drones self
      then (Inl (ValueError (MaximumDronesExceeded (max_simulated_drones self))), self)
      else update_indexes
             (self\<lparr>simulated_drones := AList.update (did drone) drone (simulated_drones self)\<rparr>)
             drone)"

subsection \<open>The pairwise checks\<close>

text \<open>
  The value of an arithmetic expression: a finite number, an infinity or NaN. The
  operations of \<^verbatim>\<open>_check_point_conflict\<close> are not fixed by the model: \<open>fsub\<close> is \<^verbatim>\<open>a - b\<close> on two
  stored coordinates, \<open>fsquare\<close> is \<^verbatim>\<open>v ** 2\<close>, \<open>fadd\<close> is \<^verbatim>\<open>u + v\<close> and \<open>froot\<close> is
  \<^verbatim>\<open>v ** 0.5\<close>, each with the result the Python run time gives it; \<open>None\<close> stands for the
  \<^verbatim>\<open>OverflowError\<close> of \<^verbatim>\<open>**\<close>. Only the comparison \<^verbatim>\<open>distance < self.safety_buffer\<close> is fixed:
  it is exact, and false for NaN.
\<close>

datatype float_val = Finite real | PosInf | NegInf | NaN

record float_ops =
  fsub :: "real \<Rightarrow> real \<Rightarrow> float_val"
  fsquare :: "float_val \<Rightarrow> float_val option"
  fadd :: "float_val \<Rightarrow> float_val \<Rightarrow> float_val"
  froot :: "float_val \<Rightarrow> float_val option"

fun float_less :: "float_val \<Rightarrow> real \<Rightarrow> bool" where
  "float_less (Finite v) b = (v < b)"
| "float_less NegInf b = True"
| "float_less PosInf b = False"
| "float_less NaN b = False"

text \<open>
  Lines 137 to 140 of \<^verbatim>\<open>_check_point_conflict\<close>: the value of \<^verbatim>\<open>distance\<close>, or \<open>None\<close> when
  one of the powers raises. The operands are evaluated from left to right.
\<close>

definition point_distance :: "float_ops \<Rightarrow> Waypoint \<Rightarrow> Waypoint \<Rightarrow> float_val option" where
  "point_distance fl wp1 wp2 =
     (let dx = fsub fl (wp_x wp1) (wp_x wp2);
          dy = fsub fl (wp_y wp1) (wp_y wp2);
          dz = fsub fl (wp_z wp1) (wp_z wp2)
      in case fsquare fl dx of
           None \<Rightarrow> None
         | Some dx2 \<Rightarrow>
             (case fsquare fl dy of
                None \<Rightarrow> None
              | Some dy2 \<Rightarrow>
                  (case fsquare fl dz of
                     None \<Rightarrow> None
                   | Some dz2 \<Rightarrow> froot fl (fadd fl (fadd fl dx2 dy2) dz2))))"

definition check_point_conflict ::
  "float_ops \<Rightarrow> DeconflictionSystem \<Rightarrow> Waypoint \<Rightarrow> Waypoint \<Rightarrow> error + bool" where
  "check_point_conflict fl self wp1 wp2 =
     (case point_distance fl wp1 wp2 of
        None \<Rightarrow> Inl OverflowError
      | Some distance \<Rightarrow> Inr (float_less distance (safety_buffer self)))"

definition spatial_key :: "Drone \<Rightarrow> Drone \<Rightarrow> string" where
  "spatial_key primary_drone simulated_drone =
     ''spatial_'' @ did primary_drone @ ''_'' @ did simulated_drone"

definition temporal_key :: "Drone \<Rightarrow> Drone \<Rightarrow> string" where
  "temporal_key primary_drone simulated_drone =
     ''temporal_'' @ did primary_drone @ ''_'' @ did simulated_drone"

text \<open>
  The two nested loops of \<^verbatim>\<open>_check_spatial_conflict\<close>, appending to \<^verbatim>\<open>conflicts\<close> (here
  \<open>found\<close>); an exception of the point check ends both.
\<close>

fun scan_simulated ::
  "float_ops \<Rightarrow> DeconflictionSystem \<Rightarrow> Drone \<Rightarrow> Waypoint \<Rightarrow> Waypoint list \<Rightarrow> ConflictPoint list \<Rightarrow>
     error + ConflictPoint list" where
  "scan_simulated fl self simulated_drone wp1 [] found = Inr found"
| "scan_simulated fl self simulated_drone wp1 (wp2 # rest) found =
     (case check_point_conflict fl self wp1 wp2 of
        Inl e \<Rightarrow> Inl e
      | Inr hit \<Rightarrow>
          scan_simulated fl self simulated_drone wp1 rest
            (if hit
             then found @ [\<lparr>drone_id = did simulated_drone, point = (wp_x wp1, wp_y wp1, wp_z wp1),
                             ctype = ''spatial'', severity = ''high''\<rparr>]
             else found))"

fun scan_primary ::
  "float_ops \<Rightarrow> DeconflictionSystem \<Rightarrow> Drone \<Rightarrow> Waypoint list \<Rightarrow> ConflictPoint list \<Rightarrow>
     error + ConflictPoint list" where
  "scan_primary fl self simulated_drone [] found = Inr found"
| "scan_primary fl self simulated_drone (wp1 # rest) found =
     (case scan_simulated fl self simulated_drone wp1 (waypoints simulated_drone) found of
        Inl e \<Rightarrow> Inl e
      | Inr found1 \<Rightarrow> scan_primary fl self simulated_drone rest found1)"

definition check_spatial_conflict ::
  "float_ops \<Rightarrow> DeconflictionSystem \<Rightarrow> Drone \<Rightarrow> Drone \<Rightarrow> (error + cache_val) \<times> DeconflictionSystem" where
  "check_spatial_conflict fl self primary_drone simulated_drone =
     (let cache_key = spatial_key primary_drone simulated_drone
      in case map_of (conflict_cache self) cache_key of
           Some cached \<Rightarrow> (Inr cached, self)
         | None \<Rightarrow>
             (case scan_primary fl self simulated_drone (waypoints primary_drone) [] of
                Inl e \<Rightarrow> (Inl e, self)
              | Inr found \<Rightarrow>
                  (Inr (CList found),
                   self\<lparr>conflict_cache :=
                          AList.update cache_key (CList found) (conflict_cache self)\<rparr>)))"

definition check_temporal_conflict ::
  "DeconflictionSystem \<Rightarrow> Drone \<Rightarrow> Drone \<Rightarrow> cache_val \<times> DeconflictionSystem" where
  "check_temporal_conflict self primary_drone simulated_drone =
     (let cache_key = temporal_key primary_drone simulated_drone
      in case map_of (conflict_cache self) cache_key of
           Some cached \<Rightarrow> (cached, self)
         | None \<Rightarrow>
             (let (t1_start, t1_end) = get_time_range primary_drone;
                  (t2_start, t2_end) = get_time_range simulated_drone;
                  conflict = (\<not> (t1_end \<le> t2_start \<or> t1_start \<ge> t2_end))
              in (CBool conflict,
                  self\<lparr>conflict_cache :=
                         AList.update cache_key (CBool conflict) (conflict_cache self)\<rparr>)))"

subsection \<open>Validation\<close>

text \<open>
  Candidate gathering: the loop over the keys of \<^verbatim>\<open>time_index\<close> extends \<^verbatim>\<open>relevant_drones\<close>
  with the bucket of every key inside the primary's window; then \<^verbatim>\<open>list(set(...))\<close> removes
  duplicates. The order in which a Python set lists strings is fixed within a run but not
  specified, so the conversion is a parameter \<open>dedup\<close> of the model; \<open>set_order\<close> says what
  every such conversion does.
\<close>

definition gathered :: "DeconflictionSystem \<Rightarrow> Drone \<Rightarrow> string list" where
  "gathered self primary_drone =
     (let (st, et) = get_time_range primary_drone
      in concat (map (\<lambda>t. case map_of (time_index self) t of Some bucket \<Rightarrow> bucket | None \<Rightarrow> [])
                     (filter (\<lambda>t. st \<le> t \<and> t \<le> et) (map fst (time_index self)))))"

definition relevant_drones :: "(string list \<Rightarrow> string list) \<Rightarrow> DeconflictionSystem \<Rightarrow> Drone \<Rightarrow> string list" where
  "relevant_drones dedup self primary_drone = dedup (gathered self primary_drone)"

definition set_order :: "(string list \<Rightarrow> string list) \<Rightarrow> bool" where
  "set_order dedup = (\<forall>xs. distinct (dedup xs) \<and> set (dedup xs) = set xs)"

text \<open>The body of the loop over \<^verbatim>\<open>relevant_drones\<close>, for one \<^verbatim>\<open>drone_id\<close>.\<close>

definition validate_step ::
  "float_ops \<Rightarrow> Drone \<Rightarrow> string \<Rightarrow> results \<Rightarrow> DeconflictionSystem \<Rightarrow>
     (error + results) \<times> DeconflictionSystem" where
  "validate_step fl primary_drone drone_id' res self =
     (case map_of (simulated_drones self) drone_id' of
        None \<Rightarrow> (Inl (KeyError drone_id'), self)
      | Some simulated_drone \<Rightarrow>
          (let res1 = res\<lparr>perf := (perf res)\<lparr>temporal_checks := temporal_checks (perf res) + 1\<rparr>\<rparr>;
               (temporal, self1) = check_temporal_conflict self primary_drone simulated_drone
           in if truthy temporal then
                (let res2 = res1\<lparr>perf := (perf res1)\<lparr>spatial_checks := spatial_checks (perf res1) + 1\<rparr>\<rparr>
                 in case check_spatial_conflict fl self1 primary_drone simulated_drone of
                      (Inl e, self2) \<Rightarrow> (Inl e, self2)
                    | (Inr spatial_conflicts, self2) \<Rightarrow>
                        if truthy spatial_conflicts then
                          (Inr (res2\<lparr>status := ''conflict'',
                                     conflicts := conflicts res2 @
                                       [\<lparr>conflicting_drone = drone_id',
                                         conflict_locations = spatial_conflicts,
                                         overlap =
                                           \<lparr>overlap_start = max (start_time primary_drone) (start_time simulated_drone),
                                            overlap_end = min (end_time primary_drone) (end_time simulated_drone)\<rparr>\<rparr>]\<rparr>),
                           self2)
                        else (Inr res2, self2))
              else (Inr res1, self1)))"

fun validate_loop ::
  "float_ops \<Rightarrow> Drone \<Rightarrow> string list \<Rightarrow> results \<Rightarrow> DeconflictionSystem \<Rightarrow>
     (error + results) \<times> DeconflictionSystem" where
  "validate_loop fl primary_drone [] res self = (Inr res, self)"
| "validate_loop fl primary_drone (drone_id' # rest) res self =
     (case validate_step fl primary_drone drone_id' res self of
        (Inl e, self1) \<Rightarrow> (Inl e, self1)
      | (Inr res1, self1) \<Rightarrow> validate_loop fl primary_drone rest res1 self1)"

text \<open>
  \<open>now0\<close> and \<open>now1\<close> are the two readings \<^verbatim>\<open>datetime.now()\<close> returns, at line 66 and at
  line 98. As in the source, the local name \<^verbatim>\<open>start_time\<close> (here \<open>started\<close>) is bound to
  the first reading and then bound again by the tuple assignment of line 70. The string the source makes of the
  difference is left as the difference.
\<close>

definition validate_mission ::
  "float_ops \<Rightarrow> (string list \<Rightarrow> string list) \<Rightarrow> instant \<Rightarrow> instant \<Rightarrow> DeconflictionSystem \<Rightarrow> Drone \<Rightarrow>
     (error + results) \<times> DeconflictionSystem" where
  "validate_mission fl dedup now0 now1 self primary_drone =
     (let res = \<lparr>status = ''clear'', conflicts = [],
                 perf = \<lparr>spatial_checks = 0, temporal_checks = 0, cache_hits = 0,
                         total_drones = length (simulated_drones self),
                         validation_time = None\<rparr>\<rparr>;
          started = now0;
          (started, ended) = get_time_range primary_drone;
          relevant = relevant_drones dedup self primary_drone
      in case validate_loop fl primary_drone relevant res self of
           (Inl e, self1) \<Rightarrow> (Inl e, self1)
         | (Inr res1, self1) \<Rightarrow>
             (Inr (res1\<lparr>perf := (perf res1)\<lparr>validation_time := Some (now1 - started)\<rparr>\<rparr>), self1))"

section \<open>Notions used to state the properties\<close>

text \<open>The engine with the default arguments of \<^verbatim>\<open>DeconflictionSystem.__init__\<close>.\<close>

definition DeconflictionSystem_default :: DeconflictionSystem where
  "DeconflictionSystem_default = DeconflictionSystem_init 10 1000"

text \<open>Registering a list of missions one after the other, with the outcome of each call.\<close>

fun register_all :: "DeconflictionSystem \<Rightarrow> Drone list \<Rightarrow> (error + unit) list \<times> DeconflictionSystem" where
  "register_all s [] = ([], s)"
| "register_all s (d # ds) =
     (let (outcome, s1) = add_simulated_drone s d;
          (outcomes, s2) = register_all s1 ds
      in (outcome # outcomes, s2))"

text \<open>
  \<open>cache_extends s s'\<close>: the state \<open>s'\<close> is \<open>s\<close> with a conflict cache that holds every entry
  of the cache of \<open>s\<close>, unchanged, and possibly more. \<open>pair_keys p s\<close> are the cache keys of
  the pairs made of the mission \<open>p\<close> and a registered mission.
\<close>

definition cache_extends :: "DeconflictionSystem \<Rightarrow> DeconflictionSystem \<Rightarrow> bool" where
  "cache_extends s s' =
     (s' = s\<lparr>conflict_cache := conflict_cache s'\<rparr>
      \<and> map_of (conflict_cache s) \<subseteq>\<^sub>m map_of (conflict_cache s'))"

definition pair_keys :: "Drone \<Rightarrow> DeconflictionSystem \<Rightarrow> string set" where
  "pair_keys p s =
     (\<Union>d \<in> snd ` set (simulated_drones s). {temporal_key p d, spatial_key p d})"

text \<open>
  \<open>ids_keys s p ids\<close> are the cache keys of \<open>p\<close> paired with the missions registered under
  \<open>ids\<close>. \<open>reported s' p i\<close>: in the state \<open>s'\<close> the cache holds, for \<open>p\<close> and the mission
  registered under \<open>i\<close>, a true temporal result and a non-empty spatial result.
\<close>

definition ids_keys :: "DeconflictionSystem \<Rightarrow> Drone \<Rightarrow> string list \<Rightarrow> string set" where
  "ids_keys s p ids =
     (\<Union>i \<in> set ids. case map_of (simulated_drones s) i of
                        None \<Rightarrow> {}
                      | Some d \<Rightarrow> {temporal_key p d, spatial_key p d})"

definition reported :: "DeconflictionSystem \<Rightarrow> Drone \<Rightarrow> string \<Rightarrow> bool" where
  "reported s' p i =
     (case map_of (simulated_drones s') i of
        None \<Rightarrow> False
      | Some d \<Rightarrow>
          (case map_of (conflict_cache s') (temporal_key p d) of
             None \<Rightarrow> False
           | Some temporal \<Rightarrow>
               truthy temporal \<and>
               (case map_of (conflict_cache s') (spatial_key p d) of
                  None \<Rightarrow> False
                | Some spatial_conflicts \<Rightarrow> truthy spatial_conflicts)))"

text \<open>
  The bucket of an instant in the temporal index (empty when the instant is no key), the
  ids in all buckets, and the property that each of them is a key of the registry.
\<close>

definition bucket_of :: "(instant \<times> string list) list \<Rightarrow> instant \<Rightarrow> string list" where
  "bucket_of ti t = (case map_of ti t of Some bucket \<Rightarrow> bucket | None \<Rightarrow> [])"

definition index_ids :: "(instant \<times> string list) list \<Rightarrow> string set" where
  "index_ids ti = (\<Union>(t, bucket) \<in> set ti. set bucket)"

definition index_ids_registered :: "DeconflictionSystem \<Rightarrow> bool" where
  "index_ids_registered s =
     list_all (\<lambda>(t, bucket). list_all (\<lambda>i. map_of (simulated_drones s) i \<noteq> None) bucket)
       (time_index s)"

definition within_capacity :: "DeconflictionSystem \<Rightarrow> bool" where
  "within_capacity s = (int (length (simulated_drones s)) \<le> max 0 (max_simulated_drones s))"

text \<open>An arithmetic in which no power raises.\<close>

definition no_overflow :: "float_ops \<Rightarrow> bool" where
  "no_overflow fl = ((\<forall>v. fsquare fl v \<noteq> None) \<and> (\<forall>v. froot fl v \<noteq> None))"

text \<open>
  The engine states a caller can produce: a new engine, followed by any sequence of
  registrations and validations. A call that raises leaves the engine in the state it had
  reached, and the caller may go on using it.
\<close>

inductive reachable :: "DeconflictionSystem \<Rightarrow> bool" where
  init: "reachable (DeconflictionSystem_init buffer max_drones)"
| add: "reachable s \<Longrightarrow> reachable (snd (add_simulated_drone s drone))"
| validate: "reachable s \<Longrightarrow> reachable (snd (validate_mission fl dedup now0 now1 s primary_drone))"

subsection \<open>A small scenario\<close>

text \<open>
  One registered mission \<open>peer\<close> hovering at the origin during \<open>[5, 15]\<close>, and primary missions
  that all carry the id \<^verbatim>\<open>p\<close>: one far away, one at the origin, one that flies later.
  \<open>engine2\<close> is the engine after the far mission has been validated: its cache holds the
  results for the pair of ids \<^verbatim>\<open>(p, s)\<close>. \<open>engine3\<close> and \<open>small2\<close> hold a second mission
  \<open>wide_peer\<close>, registered first.

  The scenario is evaluated in \<open>exact_arithmetic\<close>, where no operation rounds or raises; on
  its coordinates (0, 7 and 100) the operations of binary64 floats are exact as well.
  \<open>bounded_arithmetic\<close> is the same except that the square of a number beyond \<open>10 ^ 154\<close>
  raises, as \<^verbatim>\<open>**\<close> does on floats when the result is out of range.
\<close>

fun exact_square :: "float_val \<Rightarrow> float_val option" where
  "exact_square (Finite v) = Some (Finite (v\<^sup>2))"
| "exact_square PosInf = Some PosInf"
| "exact_square NegInf = Some PosInf"
| "exact_square NaN = Some NaN"

fun exact_add :: "float_val \<Rightarrow> float_val \<Rightarrow> float_val" where
  "exact_add (Finite u) (Finite v) = Finite (u + v)"
| "exact_add NaN v = NaN"
| "exact_add u NaN = NaN"
| "exact_add PosInf NegInf = NaN"
| "exact_add NegInf PosInf = NaN"
| "exact_add PosInf v = PosInf"
| "exact_add u PosInf = PosInf"
| "exact_add NegInf v = NegInf"
| "exact_add u NegInf = NegInf"

fun exact_root :: "float_val \<Rightarrow> float_val option" where
  "exact_root (Finite v) = Some (if v < 0 then NaN else Finite (sqrt v))"
| "exact_root PosInf = Some PosInf"
| "exact_root NegInf = Some PosInf"
| "exact_root NaN = Some NaN"

definition exact_arithmetic :: float_ops where
  "exact_arithmetic =
     \<lparr>fsub = (\<lambda>a b. Finite (a - b)), fsquare = exact_square, fadd = exact_add, froot = exact_root\<rparr>"

definition bounded_arithmetic :: float_ops where
  "bounded_arithmetic =
     exact_arithmetic
       \<lparr>fsquare := (\<lambda>v. case v of
                           Finite a \<Rightarrow> if \<bar>a\<bar> > 10 ^ 154 then None else exact_square v
                         | _ \<Rightarrow> exact_square v)\<rparr>"

definition origin :: Waypoint where
  "origin = \<lparr>wp_x = 0, wp_y = 0, wp_z = 0, timestamp = 0\<rparr>"

definition peer :: Drone where
  "peer = \<lparr>did = ''s'', waypoints = [origin], start_time = 5, end_time = 15\<rparr>"

definition far_primary :: Drone where
  "far_primary = \<lparr>did = ''p'', waypoints = [origin\<lparr>wp_x := 100\<rparr>], start_time = 0, end_time = 10\<rparr>"

definition near_primary :: Drone where
  "near_primary = \<lparr>did = ''p'', waypoints = [origin], start_time = 0, end_time = 10\<rparr>"

definition late_primary :: Drone where
  "late_primary = \<lparr>did = ''p'', waypoints = [origin], start_time = 100, end_time = 110\<rparr>"

definition peer_again :: Drone where
  "peer_again = \<lparr>did = ''s'', waypoints = [origin\<lparr>wp_x := 7\<rparr>], start_time = 15, end_time = 30\<rparr>"

definition wide_peer :: Drone where
  "wide_peer = \<lparr>did = ''w'', waypoints = [origin], start_time = - 100, end_time = 200\<rparr>"

definition huge_primary :: Drone where
  "huge_primary = \<lparr>did = ''h'', waypoints = [origin, origin\<lparr>wp_x := 10 ^ 155\<rparr>], start_time = 0, end_time = 10\<rparr>"

definition engine0 :: DeconflictionSystem where
  "engine0 = DeconflictionSystem_init 10 1000"

definition engine1 :: DeconflictionSystem where
  "engine1 = snd (add_simulated_drone engine0 peer)"

definition engine2 :: DeconflictionSystem where
  "engine2 = snd (validate_mission exact_arithmetic remdups 0 1 engine1 far_primary)"

definition engine3 :: DeconflictionSystem where
  "engine3 = snd (add_simulated_drone (snd (add_simulated_drone engine0 wide_peer)) peer)"

definition small0 :: DeconflictionSystem where
  "small0 = DeconflictionSystem_init 10 2"

definition small1 :: DeconflictionSystem where
  "small1 = snd (add_simulated_drone small0 wide_peer)"

definition small2 :: DeconflictionSystem where
  "small2 = snd (add_simulated_drone small1 peer)"

definition first_run :: "(error + results) \<times> DeconflictionSystem" where
  "first_run = validate_mission exact_arithmetic remdups 1000 1001 engine1 near_primary"

definition second_run :: "(error + results) \<times> DeconflictionSystem" where
  "second_run = validate_mission exact_arithmetic remdups 2000 2001 (snd first_run) near_primary"

section \<open>Mission construction: what the constructor checks\<close>

text \<open>
  C1. The claim: constructing a Mission fails with InvalidMission when the waypoint list is
  empty, when the end time is not after the start time, or when a waypoint is out of
  bounds. The checks are written (\<open>post_init\<close> rejects each of the three inputs below) but
  the constructor never runs them: it accepts a drone with no waypoints, one whose end
  time is before its start time, and one with a waypoint at x = 20000.
\<close>

theorem Drone_init_accepts_invalid:
  "Drone_init ''d'' [] 0 10 = Inr \<lparr>did = ''d'', waypoints = [], start_time = 0, end_time = 10\<rparr>
   \<and> post_init \<lparr>did = ''d'', waypoints = [], start_time = 0, end_time = 10\<rparr>
       = Inl (ValueError NoWaypoints)
   \<and> Drone_init ''d'' [\<lparr>wp_x = 0, wp_y = 0, wp_z = 0, timestamp = 0\<rparr>] 10 5
       = Inr \<lparr>did = ''d'', waypoints = [\<lparr>wp_x = 0, wp_y = 0, wp_z = 0, timestamp = 0\<rparr>],
              start_time = 10, end_time = 5\<rparr>
   \<and> post_init \<lparr>did = ''d'', waypoints = [\<lparr>wp_x = 0, wp_y = 0, wp_z = 0, timestamp = 0\<rparr>],
                 start_time = 10, end_time = 5\<rparr>
       = Inl (ValueError EndNotAfterStart)
   \<and> Drone_init ''d'' [\<lparr>wp_x = 20000, wp_y = 0, wp_z = 0, timestamp = 0\<rparr>] 0 10
       = Inr \<lparr>did = ''d'', waypoints = [\<lparr>wp_x = 20000, wp_y = 0, wp_z = 0, timestamp = 0\<rparr>],
              start_time = 0, end_time = 10\<rparr>
   \<and> post_init \<lparr>did = ''d'', waypoints = [\<lparr>wp_x = 20000, wp_y = 0, wp_z = 0, timestamp = 0\<rparr>],
                 start_time = 0, end_time = 10\<rparr>
       = Inl (ValueError (InvalidCoordinates (20000, 0, 0)))"
  by (simp add: Drone_init_def post_init_def validate_coordinates_def)

section \<open>The scenario, evaluated\<close>

lemma point_distance_exact:
  "point_distance exact_arithmetic a b =
     Some (Finite (sqrt ((wp_x a - wp_x b)\<^sup>2 + (wp_y a - wp_y b)\<^sup>2 + (wp_z a - wp_z b)\<^sup>2)))"
proof -
  have "\<not> (wp_x a - wp_x b)\<^sup>2 + (wp_y a - wp_y b)\<^sup>2 + (wp_z a - wp_z b)\<^sup>2 < 0"
    by (simp add: not_less)
  then show ?thesis
    by (simp add: point_distance_def exact_arithmetic_def Let_def)
qed

lemma sqrt_less_iff:
  assumes "0 \<le> q"
  shows "sqrt q < b \<longleftrightarrow> 0 < b \<and> q < b\<^sup>2"
proof (cases "0 < b")
  case True
  then have "sqrt q < b \<longleftrightarrow> q < b\<^sup>2"
    using assms by (metis less_eq_real_def real_sqrt_less_iff real_sqrt_abs abs_of_pos)
  then show ?thesis using True by simp
next
  case False
  have "0 \<le> sqrt q" using assms by simp
  then show ?thesis using False by linarith
qed

lemma check_point_conflict_exact:
  "check_point_conflict exact_arithmetic s a b =
     Inr (0 < safety_buffer s \<and>
          (wp_x a - wp_x b)\<^sup>2 + (wp_y a - wp_y b)\<^sup>2 + (wp_z a - wp_z b)\<^sup>2 < (safety_buffer s)\<^sup>2)"
  by (simp add: check_point_conflict_def point_distance_exact sqrt_less_iff)

lemma engine1_eq:
  "engine1 = \<lparr>safety_buffer = 10, max_simulated_drones = 1000,
               simulated_drones = [(''s'', peer)], spatial_index = Some [(0, 0, 0)],
               time_index = [(5, [''s'']), (15, [''s''])], conflict_cache = []\<rparr>"
  by (simp add: engine1_def engine0_def DeconflictionSystem_init_def add_simulated_drone_def
      update_indexes_def KDTree_def index_time_def get_time_range_def peer_def origin_def Let_def)

lemma engine2_eq:
  "engine2 = engine1\<lparr>conflict_cache := [(''temporal_p_s'', CBool True), (''spatial_p_s'', CList [])]\<rparr>"
  by (simp add: engine2_def engine1_eq validate_mission_def relevant_drones_def gathered_def
      get_time_range_def validate_step_def check_temporal_conflict_def check_spatial_conflict_def
      temporal_key_def spatial_key_def check_point_conflict_exact far_primary_def peer_def origin_def Let_def)

lemma engine3_eq:
  "engine3 = \<lparr>safety_buffer = 10, max_simulated_drones = 1000,
               simulated_drones = [(''w'', wide_peer), (''s'', peer)],
               spatial_index = Some [(0, 0, 0), (0, 0, 0)],
               time_index = [(- 100, [''w'']), (200, [''w'']), (5, [''s'']), (15, [''s''])],
               conflict_cache = []\<rparr>"
  by (simp add: engine3_def engine0_def DeconflictionSystem_init_def add_simulated_drone_def
      update_indexes_def KDTree_def index_time_def get_time_range_def wide_peer_def peer_def
      origin_def Let_def)

lemma small1_eq:
  "small1 = \<lparr>safety_buffer = 10, max_simulated_drones = 2,
               simulated_drones = [(''w'', wide_peer)], spatial_index = Some [(0, 0, 0)],
               time_index = [(- 100, [''w'']), (200, [''w''])], conflict_cache = []\<rparr>"
  by (simp add: small1_def small0_def DeconflictionSystem_init_def add_simulated_drone_def
      update_indexes_def KDTree_def index_time_def get_time_range_def wide_peer_def origin_def Let_def)

lemma small2_eq:
  "small2 = \<lparr>safety_buffer = 10, max_simulated_drones = 2,
               simulated_drones = [(''w'', wide_peer), (''s'', peer)],
               spatial_index = Some [(0, 0, 0), (0, 0, 0)],
               time_index = [(- 100, [''w'']), (200, [''w'']), (5, [''s'']), (15, [''s''])],
               conflict_cache = []\<rparr>"
  by (simp add: small2_def small1_eq add_simulated_drone_def
      update_indexes_def KDTree_def index_time_def get_time_range_def peer_def origin_def Let_def)

lemma first_run_eq:
  "first_run =
     (Inr \<lparr>status = ''conflict'',
           conflicts =
             [\<lparr>conflicting_drone = ''s'',
               conflict_locations =
                 CList [\<lparr>drone_id = ''s'', point = (0, 0, 0), ctype = ''spatial'', severity = ''high''\<rparr>],
               overlap = \<lparr>overlap_start = 5, overlap_end = 10\<rparr>\<rparr>],
           perf = \<lparr>spatial_checks = 1, temporal_checks = 1, cache_hits = 0, total_drones = 1,
                   validation_time = Some 1001\<rparr>\<rparr>,
      engine1\<lparr>conflict_cache :=
        [(''temporal_p_s'', CBool True),
         (''spatial_p_s'',
          CList [\<lparr>drone_id = ''s'', point = (0, 0, 0), ctype = ''spatial'', severity = ''high''\<rparr>])]\<rparr>)"
  by (simp add: first_run_def engine1_eq validate_mission_def relevant_drones_def gathered_def
      get_time_range_def validate_step_def check_temporal_conflict_def check_spatial_conflict_def
      temporal_key_def spatial_key_def check_point_conflict_exact near_primary_def peer_def origin_def Let_def)

lemma second_run_eq:
  "second_run =
     (Inr \<lparr>status = ''conflict'',
           conflicts =
             [\<lparr>conflicting_drone = ''s'',
               conflict_locations =
                 CList [\<lparr>drone_id = ''s'', point = (0, 0, 0), ctype = ''spatial'', severity = ''high''\<rparr>],
               overlap = \<lparr>overlap_start = 5, overlap_end = 10\<rparr>\<rparr>],
           perf = \<lparr>spatial_checks = 1, temporal_checks = 1, cache_hits = 0, total_drones = 1,
                   validation_time = Some 2001\<rparr>\<rparr>,
      snd first_run)"
  by (simp add: second_run_def first_run_eq engine1_eq validate_mission_def relevant_drones_def gathered_def
      get_time_range_def validate_step_def check_temporal_conflict_def check_spatial_conflict_def
      temporal_key_def spatial_key_def near_primary_def peer_def origin_def Let_def)

lemma set_remdups_order: "set_order remdups"
  by (simp add: set_order_def)

lemma no_overflow_exact: "no_overflow exact_arithmetic"
proof -
  have "exact_square v \<noteq> None" and "exact_root v \<noteq> None" for v
    by (cases v; simp)+
  then show ?thesis by (simp add: no_overflow_def exact_arithmetic_def)
qed

section \<open>The pairwise checks\<close>

lemma scan_simulated_eq:
  "scan_simulated fl s d wp1 ys acc =
     (if \<forall>wp2 \<in> set ys. point_distance fl wp1 wp2 \<noteq> None
      then Inr (acc @ [\<lparr>drone_id = did d, point = (wp_x wp1, wp_y wp1, wp_z wp1),
                        ctype = ''spatial'', severity = ''high''\<rparr>.
                      wp2 \<leftarrow> ys,
                      case point_distance fl wp1 wp2 of
                        Some distance \<Rightarrow> float_less distance (safety_buffer s)
                      | None \<Rightarrow> False])
      else Inl OverflowError)"
proof (induction ys arbitrary: acc)
  case Nil
  then show ?case by simp
next
  case (Cons wp2 ys)
  show ?case
  proof (cases "point_distance fl wp1 wp2")
    case None
    then show ?thesis by (auto simp: check_point_conflict_def)
  next
    case (Some v)
    then show ?thesis by (simp add: check_point_conflict_def Cons.IH)
  qed
qed

lemma scan_primary_eq:
  "scan_primary fl s d xs acc =
     (if \<forall>wp1 \<in> set xs. \<forall>wp2 \<in> set (waypoints d). point_distance fl wp1 wp2 \<noteq> None
      then Inr (acc @ [\<lparr>drone_id = did d, point = (wp_x wp1, wp_y wp1, wp_z wp1),
                        ctype = ''spatial'', severity = ''high''\<rparr>.
                      wp1 \<leftarrow> xs, wp2 \<leftarrow> waypoints d,
                      case point_distance fl wp1 wp2 of
                        Some distance \<Rightarrow> float_less distance (safety_buffer s)
                      | None \<Rightarrow> False])
      else Inl OverflowError)"
proof (induction xs arbitrary: acc)
  case Nil
  then show ?case by simp
next
  case (Cons wp1 xs)
  show ?case
  proof (cases "\<forall>wp2 \<in> set (waypoints d). point_distance fl wp1 wp2 \<noteq> None")
    case True
    then show ?thesis by (simp add: scan_simulated_eq Cons.IH)
  next
    case False
    then show ?thesis by (auto simp: scan_simulated_eq)
  qed
qed

text \<open>
  C5, as the code has it. When the conflict cache has no entry under the pair's spatial
  key and no power raises, the spatial test returns one conflict point for every pair (wp1
  of the primary, wp2 of the candidate) of the full cross product whose distance, as the
  code computes it, \<^verbatim>\<open>(dx**2 + dy**2 + dz**2) ** 0.5\<close>, is strictly below the safety buffer, in
  loop order, each at the coordinates of wp1, of type spatial and severity high. When a
  power raises for some pair, the test raises and stores nothing. A computed distance
  \<open>v\<close> is a conflict exactly when \<open>v < safety_buffer\<close>, so one equal to the buffer is none.
  In arithmetic without rounding the computed distance is \<open>sqrt (dx\<^sup>2 + dy\<^sup>2 + dz\<^sup>2)\<close>.
\<close>

theorem spatial_test_on_cache_miss:
  assumes "map_of (conflict_cache s) (spatial_key p d) = None"
  shows "((\<forall>wp1 \<in> set (waypoints p). \<forall>wp2 \<in> set (waypoints d). point_distance fl wp1 wp2 \<noteq> None) \<longrightarrow>
            fst (check_spatial_conflict fl s p d) =
              Inr (CList [\<lparr>drone_id = did d, point = (wp_x wp1, wp_y wp1, wp_z wp1),
                            ctype = ''spatial'', severity = ''high''\<rparr>.
                          wp1 \<leftarrow> waypoints p, wp2 \<leftarrow> waypoints d,
                          case point_distance fl wp1 wp2 of
                            Some distance \<Rightarrow> float_less distance (safety_buffer s)
                          | None \<Rightarrow> False]))
       \<and> ((\<exists>wp1 \<in> set (waypoints p). \<exists>wp2 \<in> set (waypoints d). point_distance fl wp1 wp2 = None) \<longrightarrow>
            check_spatial_conflict fl s p d = (Inl OverflowError, s))
       \<and> (\<forall>a b v. point_distance fl a b = Some (Finite v) \<longrightarrow>
            check_point_conflict fl s a b = Inr (v < safety_buffer s))
       \<and> (\<forall>a b. point_distance exact_arithmetic a b =
            Some (Finite (sqrt ((wp_x a - wp_x b)\<^sup>2 + (wp_y a - wp_y b)\<^sup>2 + (wp_z a - wp_z b)\<^sup>2))))"
proof -
  have ok: "fst (check_spatial_conflict fl s p d) =
              Inr (CList [\<lparr>drone_id = did d, point = (wp_x wp1, wp_y wp1, wp_z wp1),
                            ctype = ''spatial'', severity = ''high''\<rparr>.
                          wp1 \<leftarrow> waypoints p, wp2 \<leftarrow> waypoints d,
                          case point_distance fl wp1 wp2 of
                            Some distance \<Rightarrow> float_less distance (safety_buffer s)
                          | None \<Rightarrow> False])"
    if "\<forall>wp1 \<in> set (waypoints p). \<forall>wp2 \<in> set (waypoints d). point_distance fl wp1 wp2 \<noteq> None"
    using assms that by (simp add: check_spatial_conflict_def scan_primary_eq)
  have raise: "check_spatial_conflict fl s p d = (Inl OverflowError, s)"
    if "\<exists>wp1 \<in> set (waypoints p). \<exists>wp2 \<in> set (waypoints d). point_distance fl wp1 wp2 = None"
  proof -
    have "\<not> (\<forall>wp1 \<in> set (waypoints p). \<forall>wp2 \<in> set (waypoints d). point_distance fl wp1 wp2 \<noteq> None)"
      using that by blast
    then show ?thesis
      using assms by (simp add: check_spatial_conflict_def scan_primary_eq)
  qed
  have strict: "check_point_conflict fl s a b = Inr (v < safety_buffer s)"
    if "point_distance fl a b = Some (Finite v)" for a b v
    using that by (simp add: check_point_conflict_def)
  show ?thesis
    using ok raise strict point_distance_exact by blast
qed

text \<open>
  C5, at concrete inputs: with nothing cached, the primary at the origin conflicts with the
  peer at the origin; a primary at distance 100 does not conflict under a buffer of exactly
  100; and a primary with a waypoint at \<open>x = 10 ^ 155\<close> makes the test raise in the bounded
  arithmetic.
\<close>

theorem spatial_test_on_cache_miss_witness:
  "map_of (conflict_cache engine1) (spatial_key near_primary peer) = None
   \<and> fst (check_spatial_conflict exact_arithmetic engine1 near_primary peer) =
       Inr (CList [\<lparr>drone_id = ''s'', point = (0, 0, 0), ctype = ''spatial'', severity = ''high''\<rparr>])
   \<and> map_of (conflict_cache (engine1\<lparr>safety_buffer := 100\<rparr>)) (spatial_key far_primary peer) = None
   \<and> fst (check_spatial_conflict exact_arithmetic (engine1\<lparr>safety_buffer := 100\<rparr>) far_primary peer)
       = Inr (CList [])
   \<and> map_of (conflict_cache engine1) (spatial_key huge_primary peer) = None
   \<and> check_spatial_conflict bounded_arithmetic engine1 huge_primary peer = (Inl OverflowError, engine1)"
proof -
  have miss: "map_of (conflict_cache engine1) (spatial_key near_primary peer) = None"
    by (simp add: engine1_eq)
  have miss': "map_of (conflict_cache (engine1\<lparr>safety_buffer := 100\<rparr>)) (spatial_key far_primary peer) = None"
    by (simp add: engine1_eq)
  have miss'': "map_of (conflict_cache engine1) (spatial_key huge_primary peer) = None"
    by (simp add: engine1_eq)
  have d0: "point_distance exact_arithmetic origin origin = Some (Finite 0)"
    by (simp add: point_distance_exact)
  have d100: "point_distance exact_arithmetic (origin\<lparr>wp_x := 100\<rparr>) origin = Some (Finite 100)"
    by (simp add: point_distance_exact origin_def)
  have huge: "point_distance bounded_arithmetic (origin\<lparr>wp_x := 10 ^ 155\<rparr>) origin = None"
    by (simp add: point_distance_def bounded_arithmetic_def exact_arithmetic_def origin_def Let_def)
  have a: "fst (check_spatial_conflict exact_arithmetic engine1 near_primary peer) =
       Inr (CList [\<lparr>drone_id = ''s'', point = (0, 0, 0), ctype = ''spatial'', severity = ''high''\<rparr>])"
    using spatial_test_on_cache_miss [OF miss, of exact_arithmetic, THEN conjunct1] d0
    by (simp add: near_primary_def peer_def engine1_eq) (simp add: origin_def)
  have b: "fst (check_spatial_conflict exact_arithmetic (engine1\<lparr>safety_buffer := 100\<rparr>) far_primary peer)
       = Inr (CList [])"
    using spatial_test_on_cache_miss [OF miss', of exact_arithmetic, THEN conjunct1] d100
    by (simp add: far_primary_def peer_def engine1_eq)
  have c: "check_spatial_conflict bounded_arithmetic engine1 huge_primary peer = (Inl OverflowError, engine1)"
    using spatial_test_on_cache_miss [OF miss'', of bounded_arithmetic, THEN conjunct2, THEN conjunct1] huge
    by (simp add: huge_primary_def peer_def)
  show ?thesis using miss miss' miss'' a b c by simp
qed

text \<open>
  C5 as stated, for every pair of missions, fails: after a far mission with id \<^verbatim>\<open>p\<close> has
  been validated, the test for another mission with the same id, at distance 0 of the
  peer, returns the cached empty list.
\<close>

theorem spatial_test_stale_counterexample:
  "check_point_conflict exact_arithmetic engine2 origin origin = Inr True
   \<and> waypoints near_primary = [origin] \<and> waypoints peer = [origin]
   \<and> fst (check_spatial_conflict exact_arithmetic engine2 near_primary peer) = Inr (CList [])"
  by (simp add: check_point_conflict_exact engine2_eq engine1_eq check_spatial_conflict_def
      spatial_key_def near_primary_def peer_def)

text \<open>
  C6, as the code has it. When the conflict cache has no entry under the keys of (A, B) and
  of (B, A), the temporal test of A against B returns
  \<open>\<not> (A.end \<le> B.start \<or> A.start \<ge> B.end)\<close>, and the test of B against A returns the
  same, whether it runs in the same state or after the first test has stored its result.
\<close>

theorem temporal_test_on_cache_miss:
  assumes "map_of (conflict_cache s) (temporal_key a b) = None"
    and "map_of (conflict_cache s) (temporal_key b a) = None"
  shows "fst (check_temporal_conflict s a b)
           = CBool (\<not> (end_time a \<le> start_time b \<or> start_time a \<ge> end_time b))
       \<and> fst (check_temporal_conflict s b a) = fst (check_temporal_conflict s a b)
       \<and> fst (check_temporal_conflict (snd (check_temporal_conflict s a b)) b a)
           = fst (check_temporal_conflict s a b)"
  using assms
  by (auto simp: check_temporal_conflict_def get_time_range_def Let_def update_conv'
      split: option.splits)

text \<open>C6, at concrete inputs: one overlapping and one disjoint pair, nothing cached.\<close>

theorem temporal_test_on_cache_miss_witness:
  "map_of (conflict_cache engine1) (temporal_key near_primary peer) = None
   \<and> map_of (conflict_cache engine1) (temporal_key peer near_primary) = None
   \<and> fst (check_temporal_conflict engine1 near_primary peer) = CBool True
   \<and> fst (check_temporal_conflict engine1 peer near_primary) = CBool True
   \<and> fst (check_temporal_conflict engine1 late_primary peer) = CBool False"
proof -
  have m1: "map_of (conflict_cache engine1) (temporal_key near_primary peer) = None"
    and m2: "map_of (conflict_cache engine1) (temporal_key peer near_primary) = None"
    and m3: "map_of (conflict_cache engine1) (temporal_key late_primary peer) = None"
    and m4: "map_of (conflict_cache engine1) (temporal_key peer late_primary) = None"
    by (simp_all add: engine1_eq)
  show ?thesis
    using m1 m2 temporal_test_on_cache_miss [OF m1 m2] temporal_test_on_cache_miss [OF m3 m4]
    by (simp add: near_primary_def late_primary_def peer_def)
qed

text \<open>
  C6 as stated, for every pair of missions, fails: after a mission with id \<^verbatim>\<open>p\<close> that
  overlaps the peer has been validated, the test for a later mission with the same id, which
  starts after the peer has ended, returns the cached \<open>True\<close>; the test in the other
  direction is not cached and returns \<open>False\<close>, so the two directions differ.
\<close>

theorem temporal_test_stale_counterexample:
  "end_time peer \<le> start_time late_primary
   \<and> fst (check_temporal_conflict engine2 late_primary peer) = CBool True
   \<and> fst (check_temporal_conflict engine2 peer late_primary) = CBool False"
  by (simp add: engine2_eq engine1_eq check_temporal_conflict_def temporal_key_def
      get_time_range_def late_primary_def peer_def)

section \<open>Validation changes the cache only\<close>

lemma cache_extends_refl: "cache_extends s s"
  by (simp add: cache_extends_def)

lemma cache_extends_trans:
  "cache_extends s s1 \<Longrightarrow> cache_extends s1 s2 \<Longrightarrow> cache_extends s s2"
  unfolding cache_extends_def
  by (metis (no_types, lifting) DeconflictionSystem.surjective DeconflictionSystem.update_convs(6) map_le_trans)

lemma cache_extends_store:
  "map_of (conflict_cache s) k = None \<Longrightarrow>
   cache_extends s (s\<lparr>conflict_cache := AList.update k v (conflict_cache s)\<rparr>)"
  by (auto simp: cache_extends_def map_le_def update_conv' dom_def)

lemma cache_extends_fields:
  assumes "cache_extends s t"
  shows "simulated_drones t = simulated_drones s" and "time_index t = time_index s"
    and "spatial_index t = spatial_index s" and "safety_buffer t = safety_buffer s"
    and "max_simulated_drones t = max_simulated_drones s"
proof -
  have eq: "t = s\<lparr>conflict_cache := conflict_cache t\<rparr>"
    using assms by (simp add: cache_extends_def)
  show "simulated_drones t = simulated_drones s" by (subst eq) simp
  show "time_index t = time_index s" by (subst eq) simp
  show "spatial_index t = spatial_index s" by (subst eq) simp
  show "safety_buffer t = safety_buffer s" by (subst eq) simp
  show "max_simulated_drones t = max_simulated_drones s" by (subst eq) simp
qed

lemma cache_extends_lookup:
  "cache_extends s t \<Longrightarrow> map_of (conflict_cache s) k = Some v \<Longrightarrow>
   map_of (conflict_cache t) k = Some v"
  by (auto simp: cache_extends_def map_le_def dom_def)

lemma check_temporal_conflict_extends:
  "cache_extends s (snd (check_temporal_conflict s p d))"
  by (auto simp: check_temporal_conflict_def Let_def get_time_range_def cache_extends_refl
      cache_extends_store split: option.splits)

lemma check_spatial_conflict_extends:
  "cache_extends s (snd (check_spatial_conflict fl s p d))"
  by (auto simp: check_spatial_conflict_def Let_def cache_extends_refl
      cache_extends_store split: option.splits sum.splits)

lemma validate_step_extends:
  "cache_extends s (snd (validate_step fl p i r s))"
proof (cases "map_of (simulated_drones s) i")
  case None
  then show ?thesis by (simp add: validate_step_def cache_extends_refl)
next
  case (Some d)
  obtain tc s1 where t: "check_temporal_conflict s p d = (tc, s1)" by force
  obtain sc s2 where sp: "check_spatial_conflict fl s1 p d = (sc, s2)" by force
  have e1: "cache_extends s s1" using check_temporal_conflict_extends [of s p d] t by simp
  have e2: "cache_extends s1 s2" using check_spatial_conflict_extends [of s1 fl p d] sp by simp
  have e3: "cache_extends s s2" using e1 e2 by (rule cache_extends_trans)
  show ?thesis using Some t sp e1 e3
    by (cases sc) (simp_all add: validate_step_def Let_def)
qed

lemma validate_loop_extends:
  "cache_extends s (snd (validate_loop fl p ids r s))"
proof (induction ids arbitrary: r s)
  case Nil
  then show ?case by (simp add: cache_extends_refl)
next
  case (Cons i ids)
  obtain o1 s1 where st: "validate_step fl p i r s = (o1, s1)" by force
  have e1: "cache_extends s s1" using validate_step_extends [of s fl p i r] st by simp
  show ?case
  proof (cases o1)
    case (Inl e)
    then show ?thesis using st e1 by simp
  next
    case (Inr r1)
    have "cache_extends s1 (snd (validate_loop fl p ids r1 s1))" by (rule Cons.IH)
    then show ?thesis using st Inr e1 by (simp add: cache_extends_trans [OF e1])
  qed
qed

lemma validate_mission_loop:
  "snd (validate_mission fl dedup n0 n1 s p)
     = snd (validate_loop fl p (relevant_drones dedup s p)
              \<lparr>status = ''clear'', conflicts = [],
               perf = \<lparr>spatial_checks = 0, temporal_checks = 0, cache_hits = 0,
                       total_drones = length (simulated_drones s),
                       validation_time = None\<rparr>\<rparr> s)"
  by (simp add: validate_mission_def Let_def get_time_range_def split: prod.splits sum.splits)

lemma validate_mission_extends:
  "cache_extends s (snd (validate_mission fl dedup n0 n1 s p))"
  by (simp only: validate_mission_loop validate_loop_extends)

lemma check_temporal_conflict_keys:
  "fst ` set (conflict_cache (snd (check_temporal_conflict s p d)))
     \<subseteq> insert (temporal_key p d) (fst ` set (conflict_cache s))"
  by (auto simp: check_temporal_conflict_def Let_def get_time_range_def dom_update
      split: option.splits)

lemma check_spatial_conflict_keys:
  "fst ` set (conflict_cache (snd (check_spatial_conflict fl s p d)))
     \<subseteq> insert (spatial_key p d) (fst ` set (conflict_cache s))"
  by (auto simp: check_spatial_conflict_def Let_def dom_update split: option.splits sum.splits)

lemma validate_step_keys:
  "fst ` set (conflict_cache (snd (validate_step fl p i r s)))
     \<subseteq> fst ` set (conflict_cache s) \<union> pair_keys p s"
proof (cases "map_of (simulated_drones s) i")
  case None
  then show ?thesis by (simp add: validate_step_def)
next
  case (Some d)
  obtain tc s1 where t: "check_temporal_conflict s p d = (tc, s1)" by force
  obtain sc s2 where sp: "check_spatial_conflict fl s1 p d = (sc, s2)" by force
  have "(i, d) \<in> set (simulated_drones s)" using Some by (rule map_of_SomeD)
  then have d: "temporal_key p d \<in> pair_keys p s" "spatial_key p d \<in> pair_keys p s"
    by (force simp: pair_keys_def)+
  have "fst ` set (conflict_cache s1) \<subseteq> insert (temporal_key p d) (fst ` set (conflict_cache s))"
    using check_temporal_conflict_keys [of s p d] t by simp
  then have k1: "fst ` set (conflict_cache s1) \<subseteq> fst ` set (conflict_cache s) \<union> pair_keys p s"
    using d(1) by (simp add: subset_iff) metis
  have "fst ` set (conflict_cache s2) \<subseteq> insert (spatial_key p d) (fst ` set (conflict_cache s1))"
    using check_spatial_conflict_keys [of fl s1 p d] sp by simp
  then have k2: "fst ` set (conflict_cache s2) \<subseteq> fst ` set (conflict_cache s) \<union> pair_keys p s"
    using d(2) k1 by (simp add: subset_iff) metis
  show ?thesis using Some t sp k1 k2
    by (cases sc) (simp_all add: validate_step_def Let_def)
qed

lemma pair_keys_cong: "simulated_drones t = simulated_drones s \<Longrightarrow> pair_keys p t = pair_keys p s"
  by (simp add: pair_keys_def)

lemma validate_loop_keys:
  "fst ` set (conflict_cache (snd (validate_loop fl p ids r s)))
     \<subseteq> fst ` set (conflict_cache s) \<union> pair_keys p s"
proof (induction ids arbitrary: r s)
  case Nil
  then show ?case by simp
next
  case (Cons i ids)
  obtain o1 s1 where st: "validate_step fl p i r s = (o1, s1)" by force
  have k1: "fst ` set (conflict_cache s1) \<subseteq> fst ` set (conflict_cache s) \<union> pair_keys p s"
    using validate_step_keys [of fl p i r s] st by simp
  show ?case
  proof (cases o1)
    case (Inl e)
    then show ?thesis using st k1 by simp
  next
    case (Inr r1)
    have "cache_extends s s1" using validate_step_extends [of s fl p i r] st by simp
    then have "simulated_drones s1 = simulated_drones s" by (rule cache_extends_fields(1))
    then have pk: "pair_keys p s1 = pair_keys p s" by (rule pair_keys_cong)
    have "fst ` set (conflict_cache (snd (validate_loop fl p ids r1 s1)))
            \<subseteq> fst ` set (conflict_cache s1) \<union> pair_keys p s1"
      by (rule Cons.IH)
    then have "fst ` set (conflict_cache (snd (validate_loop fl p ids r1 s1)))
            \<subseteq> fst ` set (conflict_cache s) \<union> pair_keys p s"
      using k1 pk by auto
    then show ?thesis using st Inr by simp
  qed
qed

lemma validate_mission_keys:
  "fst ` set (conflict_cache (snd (validate_mission fl dedup n0 n1 s p)))
     \<subseteq> fst ` set (conflict_cache s) \<union> pair_keys p s"
  by (simp only: validate_mission_loop validate_loop_keys)

text \<open>
  C10. Validation leaves the registry, the temporal index, the spatial index, the safety
  buffer and the capacity limit as they were, whether it returns or raises. The conflict
  cache keeps every entry it had, with the same value, and a key it gains is the temporal or
  spatial key of the primary paired with a registered mission. Missions are values of the
  model: the registry being unchanged, every registered mission is, and the primary is only
  read.
\<close>

theorem validate_mission_frame:
  "simulated_drones (snd (validate_mission fl dedup now0 now1 s p)) = simulated_drones s
   \<and> time_index (snd (validate_mission fl dedup now0 now1 s p)) = time_index s
   \<and> spatial_index (snd (validate_mission fl dedup now0 now1 s p)) = spatial_index s
   \<and> safety_buffer (snd (validate_mission fl dedup now0 now1 s p)) = safety_buffer s
   \<and> max_simulated_drones (snd (validate_mission fl dedup now0 now1 s p)) = max_simulated_drones s
   \<and> map_of (conflict_cache s)
       \<subseteq>\<^sub>m map_of (conflict_cache (snd (validate_mission fl dedup now0 now1 s p)))
   \<and> fst ` set (conflict_cache (snd (validate_mission fl dedup now0 now1 s p)))
       \<subseteq> fst ` set (conflict_cache s) \<union> pair_keys p s"
proof -
  have ext: "cache_extends s (snd (validate_mission fl dedup now0 now1 s p))"
    by (rule validate_mission_extends)
  then have "map_of (conflict_cache s)
       \<subseteq>\<^sub>m map_of (conflict_cache (snd (validate_mission fl dedup now0 now1 s p)))"
    by (simp add: cache_extends_def)
  then show ?thesis
    using cache_extends_fields [OF ext] validate_mission_keys [of fl dedup now0 now1 s p]
    by simp
qed

section \<open>Validating twice\<close>

lemma check_temporal_conflict_cached:
  "check_temporal_conflict s p d = (v, s1) \<Longrightarrow>
   map_of (conflict_cache s1) (temporal_key p d) = Some v"
  by (auto simp: check_temporal_conflict_def Let_def get_time_range_def update_conv'
      split: option.splits)

lemma check_spatial_conflict_cached:
  "check_spatial_conflict fl s p d = (Inr v, s1) \<Longrightarrow>
   map_of (conflict_cache s1) (spatial_key p d) = Some v"
  by (auto simp: check_spatial_conflict_def Let_def update_conv' split: option.splits sum.splits)

lemma check_temporal_conflict_hit:
  "map_of (conflict_cache t) (temporal_key p d) = Some v \<Longrightarrow>
   check_temporal_conflict t p d = (v, t)"
  by (simp add: check_temporal_conflict_def)

lemma check_spatial_conflict_hit:
  "map_of (conflict_cache t) (spatial_key p d) = Some v \<Longrightarrow>
   check_spatial_conflict fl t p d = (Inr v, t)"
  by (simp add: check_spatial_conflict_def)

lemma validate_step_replay:
  assumes step: "validate_step fl p i r s = (Inr r1, s1)" and ext: "cache_extends s1 t"
  shows "validate_step fl' p i r t = (Inr r1, t)"
proof (cases "map_of (simulated_drones s) i")
  case None
  then show ?thesis using step by (simp add: validate_step_def)
next
  case (Some d)
  obtain tc sa where tm: "check_temporal_conflict s p d = (tc, sa)" by force
  obtain so sb where sp: "check_spatial_conflict fl sa p d = (so, sb)" by force
  have s1_ext: "cache_extends s s1" using validate_step_extends [of s fl p i r] step by simp
  have reg: "map_of (simulated_drones t) i = Some d"
    using Some cache_extends_fields(1) [OF s1_ext] cache_extends_fields(1) [OF ext] by simp
  show ?thesis
  proof (cases "truthy tc")
    case False
    then have s1: "s1 = sa" and r1: "r1 = r\<lparr>perf := (perf r)\<lparr>temporal_checks := temporal_checks (perf r) + 1\<rparr>\<rparr>"
      using step Some tm by (auto simp: validate_step_def Let_def)
    have "map_of (conflict_cache t) (temporal_key p d) = Some tc"
      using check_temporal_conflict_cached [OF tm] ext s1 by (simp add: cache_extends_lookup)
    then have "check_temporal_conflict t p d = (tc, t)" by (rule check_temporal_conflict_hit)
    then show ?thesis using reg False r1 by (simp add: validate_step_def Let_def)
  next
    case True
    have "so \<noteq> Inl e" for e
      using step Some tm sp True by (auto simp: validate_step_def Let_def)
    then obtain sc where so: "so = Inr sc" by (cases so) blast+
    have s1: "s1 = sb" using step Some tm sp True so
      by (auto simp: validate_step_def Let_def split: if_splits)
    have "cache_extends sa sb" using check_spatial_conflict_extends [of sa fl p d] sp by simp
    then have "cache_extends sa t" using ext s1 by (auto intro: cache_extends_trans)
    then have "map_of (conflict_cache t) (temporal_key p d) = Some tc"
      using check_temporal_conflict_cached [OF tm] by (simp add: cache_extends_lookup)
    then have t1: "check_temporal_conflict t p d = (tc, t)" by (rule check_temporal_conflict_hit)
    have "map_of (conflict_cache t) (spatial_key p d) = Some sc"
      using check_spatial_conflict_cached [of fl sa p d sc sb] sp so ext s1
      by (simp add: cache_extends_lookup)
    then have t2: "check_spatial_conflict fl' t p d = (Inr sc, t)" by (rule check_spatial_conflict_hit)
    show ?thesis using step Some tm sp so reg t1 t2 True
      by (auto simp: validate_step_def Let_def split: if_splits)
  qed
qed

lemma validate_loop_replay:
  "validate_loop fl p ids r s = (Inr r', s') \<Longrightarrow> cache_extends s' t \<Longrightarrow>
   validate_loop fl' p ids r t = (Inr r', t)"
proof (induction ids arbitrary: r s)
  case Nil
  then show ?case by simp
next
  case (Cons i ids)
  obtain o1 s1 where st: "validate_step fl p i r s = (o1, s1)" by force
  show ?case
  proof (cases o1)
    case (Inl e)
    then show ?thesis using Cons.prems st by simp
  next
    case (Inr r1)
    then have rest: "validate_loop fl p ids r1 s1 = (Inr r', s')" using Cons.prems st by simp
    have "cache_extends s1 s'" using validate_loop_extends [of s1 fl p ids r1] rest by simp
    then have "cache_extends s1 t" using Cons.prems(2) by (rule cache_extends_trans)
    then have "validate_step fl' p i r t = (Inr r1, t)"
      using st Inr by (simp add: validate_step_replay)
    moreover have "validate_loop fl' p ids r1 t = (Inr r', t)"
      using rest Cons.prems(2) by (rule Cons.IH)
    ultimately show ?thesis by simp
  qed
qed

lemma relevant_drones_cong:
  "time_index t = time_index s \<Longrightarrow> relevant_drones dedup t p = relevant_drones dedup s p"
  by (simp add: relevant_drones_def gathered_def)

text \<open>
  A second validation of the same mission, in the state the first one left, returns the
  same status, conflicts and counters, and leaves the state as it is; only the recorded
  time differs.
\<close>

lemma validate_mission_again:
  assumes first: "validate_mission fl dedup a b s p = (Inr r1, s1)"
  shows "validate_mission fl' dedup a' b' s1 p
         = (Inr (r1\<lparr>perf := (perf r1)\<lparr>validation_time := Some (b' - start_time p)\<rparr>\<rparr>), s1)"
proof -
  let ?r0 = "\<lparr>status = ''clear'', conflicts = [],
                 perf = \<lparr>spatial_checks = 0, temporal_checks = 0, cache_hits = 0,
                         total_drones = length (simulated_drones s),
                         validation_time = None\<rparr>\<rparr>"
  obtain o1 sa where lp: "validate_loop fl p (relevant_drones dedup s p) ?r0 s = (o1, sa)" by force
  have "o1 \<noteq> Inl e" for e
    using first lp by (auto simp add: validate_mission_def Let_def get_time_range_def)
  then obtain ra where o1: "o1 = Inr ra" by (cases o1) blast+
  have r1: "r1 = ra\<lparr>perf := (perf ra)\<lparr>validation_time := Some (b - start_time p)\<rparr>\<rparr>"
    and s1: "s1 = sa"
    using first lp o1 by (simp_all add: validate_mission_def Let_def get_time_range_def)
  have ext: "cache_extends s s1" using validate_mission_extends [of s fl dedup a b p] first by simp
  have "validate_loop fl' p (relevant_drones dedup s p) ?r0 s1 = (Inr ra, s1)"
    using lp o1 s1 validate_loop_replay [of fl p "relevant_drones dedup s p" ?r0 s ra sa sa fl']
    by (simp add: cache_extends_refl)
  moreover have "relevant_drones dedup s1 p = relevant_drones dedup s p"
    using cache_extends_fields(2) [OF ext] by (rule relevant_drones_cong)
  ultimately show ?thesis
    using cache_extends_fields(1) [OF ext] r1
    by (simp add: validate_mission_def Let_def get_time_range_def)
qed

lemma validate_step_cache_hits:
  "validate_step fl p i r s = (Inr r1, s1) \<Longrightarrow> cache_hits (perf r1) = cache_hits (perf r)"
  by (auto simp: validate_step_def Let_def split: option.splits prod.splits sum.splits if_splits)

lemma validate_loop_cache_hits:
  "validate_loop fl p ids r s = (Inr r', s') \<Longrightarrow> cache_hits (perf r') = cache_hits (perf r)"
proof (induction ids arbitrary: r s)
  case Nil
  then show ?case by simp
next
  case (Cons i ids)
  then show ?case
    by (auto split: prod.splits sum.splits dest!: validate_step_cache_hits)
qed

text \<open>The counter \<^verbatim>\<open>cache_hits\<close> is set to 0 and never written again.\<close>

lemma validate_mission_cache_hits:
  "validate_mission fl dedup a b s p = (Inr r, s') \<Longrightarrow> cache_hits (perf r) = 0"
  by (auto simp: validate_mission_def Let_def get_time_range_def
      split: prod.splits sum.splits dest!: validate_loop_cache_hits)

text \<open>
  C2. Validating the mission at the origin twice against the engine with one registered
  peer: the first call computes both checks and stores them, the second call finds both in
  the cache; status and conflict locations are the same in both results and the state is not
  changed by the second call. The claim says that \<^verbatim>\<open>cache_hits\<close> of the second result is
  greater than that of the first; the code reports 0 in both.
\<close>

theorem cache_hits_not_counted:
  "map_of (conflict_cache engine1) (temporal_key near_primary peer) = None
   \<and> map_of (conflict_cache (snd first_run)) (temporal_key near_primary peer) = Some (CBool True)
   \<and> map_of (conflict_cache (snd first_run)) (spatial_key near_primary peer)
       = Some (CList [\<lparr>drone_id = ''s'', point = (0, 0, 0), ctype = ''spatial'', severity = ''high''\<rparr>])
   \<and> map (map_sum id (\<lambda>r. (status r, map conflict_locations (conflicts r), cache_hits (perf r))))
         [fst first_run, fst second_run]
       = [Inr (''conflict'',
               [CList [\<lparr>drone_id = ''s'', point = (0, 0, 0), ctype = ''spatial'', severity = ''high''\<rparr>]],
               0),
          Inr (''conflict'',
               [CList [\<lparr>drone_id = ''s'', point = (0, 0, 0), ctype = ''spatial'', severity = ''high''\<rparr>]],
               0)]
   \<and> snd second_run = snd first_run"
  by (simp add: second_run_eq first_run_eq engine1_eq temporal_key_def spatial_key_def
      near_primary_def peer_def)

lemma validate_mission_validation_time:
  "validate_mission fl dedup now0 now1 s p = (Inr r, s') \<Longrightarrow>
   validation_time (perf r) = Some (now1 - start_time p)"
  by (auto simp: validate_mission_def Let_def get_time_range_def split: prod.splits sum.splits)

text \<open>
  C8. The claim: \<^verbatim>\<open>validation_time\<close> is the clock reading at the end of the call minus the
  reading at its start, and does not depend on the primary's start time. With the readings
  1000 and 1001 the code records 1001 for a mission that starts at 0 and 998 for the same
  mission starting at 3; the first reading (1000 or 500) does not matter.
\<close>

theorem validation_time_from_mission_start:
  "map (map_sum id (\<lambda>r. validation_time (perf r)))
     [fst (validate_mission exact_arithmetic remdups 1000 1001 engine1 near_primary),
      fst (validate_mission exact_arithmetic remdups 1000 1001 engine1 (near_primary\<lparr>start_time := 3\<rparr>)),
      fst (validate_mission exact_arithmetic remdups 500 1001 engine1 near_primary)]
   = [Inr (Some 1001), Inr (Some 998), Inr (Some 1001)]"
  by (simp add: engine1_eq validate_mission_def relevant_drones_def gathered_def
      get_time_range_def validate_step_def check_temporal_conflict_def check_spatial_conflict_def
      temporal_key_def spatial_key_def check_point_conflict_exact near_primary_def peer_def origin_def Let_def)

section \<open>Candidate gathering\<close>

lemma set_gathered:
  "set (gathered s p) =
     {i. \<exists>t bucket. map_of (time_index s) t = Some bucket
           \<and> start_time p \<le> t \<and> t \<le> end_time p \<and> i \<in> set bucket}"
proof -
  have keys: "t \<in> fst ` set (time_index s) \<longleftrightarrow> (\<exists>bucket. map_of (time_index s) t = Some bucket)" for t
    using map_of_eq_None_iff [of "time_index s" t] by auto
  show ?thesis
    unfolding gathered_def get_time_range_def
    by (auto simp: keys split: option.splits) blast
qed

lemma validate_step_temporal_checks:
  "validate_step fl p i r s = (Inr r1, s1) \<Longrightarrow> temporal_checks (perf r1) = temporal_checks (perf r) + 1"
  by (auto simp: validate_step_def Let_def split: option.splits prod.splits sum.splits if_splits)

lemma validate_loop_temporal_checks:
  "validate_loop fl p ids r s = (Inr r', s') \<Longrightarrow>
   temporal_checks (perf r') = temporal_checks (perf r) + length ids"
proof (induction ids arbitrary: r s)
  case Nil
  then show ?case by simp
next
  case (Cons i ids)
  then show ?case
    by (auto split: prod.splits sum.splits dest!: validate_step_temporal_checks)
qed

lemma validate_mission_temporal_checks:
  "validate_mission fl dedup a b s p = (Inr r, s') \<Longrightarrow>
   temporal_checks (perf r) = length (relevant_drones dedup s p)"
  by (auto simp: validate_mission_def Let_def get_time_range_def
      split: prod.splits sum.splits dest!: validate_loop_temporal_checks)

lemma validate_step_reported:
  assumes step: "validate_step fl p i r s = (Inr r1, s1)" and ext: "cache_extends s1 s'"
  shows "map conflicting_drone (conflicts r1)
           = map conflicting_drone (conflicts r) @ (if reported s' p i then [i] else [])
       \<and> (\<exists>d v. map_of (simulated_drones s) i = Some d
                 \<and> map_of (conflict_cache s') (temporal_key p d) = Some v)"
proof (cases "map_of (simulated_drones s) i")
  case None
  then show ?thesis using step by (simp add: validate_step_def)
next
  case (Some d)
  obtain tc sa where tm: "check_temporal_conflict s p d = (tc, sa)" by force
  obtain so sb where sp: "check_spatial_conflict fl sa p d = (so, sb)" by force
  have s1_ext: "cache_extends s s1" using validate_step_extends [of s fl p i r] step by simp
  have reg: "map_of (simulated_drones s') i = Some d"
    using Some cache_extends_fields(1) [OF s1_ext] cache_extends_fields(1) [OF ext] by simp
  show ?thesis
  proof (cases "truthy tc")
    case False
    then have s1: "s1 = sa" and r1: "conflicts r1 = conflicts r"
      using step Some tm by (auto simp: validate_step_def Let_def)
    have tv: "map_of (conflict_cache s') (temporal_key p d) = Some tc"
      using check_temporal_conflict_cached [OF tm] ext s1 by (simp add: cache_extends_lookup)
    then have "\<not> reported s' p i" using reg False by (simp add: reported_def)
    then show ?thesis using r1 Some tv by simp
  next
    case True
    have "so \<noteq> Inl e" for e
      using step Some tm sp True by (auto simp: validate_step_def Let_def)
    then obtain sc where so: "so = Inr sc" by (cases so) blast+
    have s1: "s1 = sb" using step Some tm sp True so
      by (auto simp: validate_step_def Let_def split: if_splits)
    have "cache_extends sa sb" using check_spatial_conflict_extends [of sa fl p d] sp by simp
    then have "cache_extends sa s'" using ext s1 by (auto intro: cache_extends_trans)
    then have tv: "map_of (conflict_cache s') (temporal_key p d) = Some tc"
      using check_temporal_conflict_cached [OF tm] by (simp add: cache_extends_lookup)
    have sv: "map_of (conflict_cache s') (spatial_key p d) = Some sc"
      using check_spatial_conflict_cached [of fl sa p d sc sb] sp so ext s1
      by (simp add: cache_extends_lookup)
    have rep: "reported s' p i = truthy sc" using reg tv sv True by (simp add: reported_def)
    have "map conflicting_drone (conflicts r1)
           = map conflicting_drone (conflicts r) @ (if truthy sc then [i] else [])"
      using step Some tm sp so True by (auto simp: validate_step_def Let_def split: if_splits)
    then show ?thesis using rep Some tv by simp
  qed
qed

lemma validate_loop_reported:
  "validate_loop fl p ids r s = (Inr r', s') \<Longrightarrow>
   map conflicting_drone (conflicts r')
     = map conflicting_drone (conflicts r) @ filter (reported s' p) ids
   \<and> (\<forall>i \<in> set ids. \<exists>d v. map_of (simulated_drones s) i = Some d
                           \<and> map_of (conflict_cache s') (temporal_key p d) = Some v)"
proof (induction ids arbitrary: r s)
  case Nil
  then show ?case by simp
next
  case (Cons i ids)
  obtain o1 s1 where st: "validate_step fl p i r s = (o1, s1)" by force
  show ?case
  proof (cases o1)
    case (Inl e)
    then show ?thesis using Cons.prems st by simp
  next
    case (Inr r1)
    then have rest: "validate_loop fl p ids r1 s1 = (Inr r', s')" using Cons.prems st by simp
    have ext: "cache_extends s1 s'" using validate_loop_extends [of s1 fl p ids r1] rest by simp
    have s1_ext: "cache_extends s s1" using validate_step_extends [of s fl p i r] st by simp
    have reg: "simulated_drones s1 = simulated_drones s" using s1_ext by (rule cache_extends_fields(1))
    have one: "map conflicting_drone (conflicts r1)
           = map conflicting_drone (conflicts r) @ (if reported s' p i then [i] else [])
       \<and> (\<exists>d v. map_of (simulated_drones s) i = Some d
                 \<and> map_of (conflict_cache s') (temporal_key p d) = Some v)"
      using st Inr ext validate_step_reported [of fl p i r s r1 s1 s'] by simp
    have more: "map conflicting_drone (conflicts r')
         = map conflicting_drone (conflicts r1) @ filter (reported s' p) ids
       \<and> (\<forall>i \<in> set ids. \<exists>d v. map_of (simulated_drones s1) i = Some d
                           \<and> map_of (conflict_cache s') (temporal_key p d) = Some v)"
      using rest by (rule Cons.IH)
    show ?thesis using one more reg by simp
  qed
qed

lemma validate_step_ids_keys:
  "fst ` set (conflict_cache (snd (validate_step fl p i r s)))
     \<subseteq> fst ` set (conflict_cache s) \<union> ids_keys s p [i]"
proof (cases "map_of (simulated_drones s) i")
  case None
  then show ?thesis by (simp add: validate_step_def)
next
  case (Some d)
  obtain tc s1 where t: "check_temporal_conflict s p d = (tc, s1)" by force
  obtain sc s2 where sp: "check_spatial_conflict fl s1 p d = (sc, s2)" by force
  have k: "ids_keys s p [i] = {temporal_key p d, spatial_key p d}"
    using Some by (simp add: ids_keys_def)
  have "fst ` set (conflict_cache s1) \<subseteq> insert (temporal_key p d) (fst ` set (conflict_cache s))"
    using check_temporal_conflict_keys [of s p d] t by simp
  then have k1: "fst ` set (conflict_cache s1) \<subseteq> fst ` set (conflict_cache s) \<union> ids_keys s p [i]"
    unfolding k by (simp add: subset_iff) metis
  have "fst ` set (conflict_cache s2) \<subseteq> insert (spatial_key p d) (fst ` set (conflict_cache s1))"
    using check_spatial_conflict_keys [of fl s1 p d] sp by simp
  then have k2: "fst ` set (conflict_cache s2) \<subseteq> fst ` set (conflict_cache s) \<union> ids_keys s p [i]"
    using k1 unfolding k by (simp add: subset_iff) metis
  show ?thesis using Some t sp k1 k2
    by (cases sc) (simp_all add: validate_step_def Let_def)
qed

lemma ids_keys_Cons: "ids_keys s p (i # ids) = ids_keys s p [i] \<union> ids_keys s p ids"
  by (simp add: ids_keys_def)

lemma ids_keys_cong: "simulated_drones t = simulated_drones s \<Longrightarrow> ids_keys t p ids = ids_keys s p ids"
  by (simp add: ids_keys_def)

lemma validate_loop_ids_keys:
  "fst ` set (conflict_cache (snd (validate_loop fl p ids r s)))
     \<subseteq> fst ` set (conflict_cache s) \<union> ids_keys s p ids"
proof (induction ids arbitrary: r s)
  case Nil
  then show ?case by simp
next
  case (Cons i ids)
  obtain o1 s1 where st: "validate_step fl p i r s = (o1, s1)" by force
  have k1: "fst ` set (conflict_cache s1) \<subseteq> fst ` set (conflict_cache s) \<union> ids_keys s p [i]"
    using validate_step_ids_keys [of fl p i r s] st by simp
  show ?case
  proof (cases o1)
    case (Inl e)
    then show ?thesis using st k1 by (auto simp: ids_keys_Cons [of s p i ids])
  next
    case (Inr r1)
    have "cache_extends s s1" using validate_step_extends [of s fl p i r] st by simp
    then have "simulated_drones s1 = simulated_drones s" by (rule cache_extends_fields(1))
    then have pk: "ids_keys s1 p ids = ids_keys s p ids" by (rule ids_keys_cong)
    have "fst ` set (conflict_cache (snd (validate_loop fl p ids r1 s1)))
            \<subseteq> fst ` set (conflict_cache s1) \<union> ids_keys s1 p ids"
      by (rule Cons.IH)
    then have "fst ` set (conflict_cache (snd (validate_loop fl p ids r1 s1)))
            \<subseteq> fst ` set (conflict_cache s) \<union> ids_keys s p (i # ids)"
      using k1 pk by (auto simp: ids_keys_Cons [of s p i ids])
    then show ?thesis using st Inr by simp
  qed
qed

text \<open>
  C7. The candidates of a validation are exactly the ids found in the buckets of the
  temporal index whose boundary instant t satisfies primary.start \<le> t \<le> primary.end, each
  once. They are the missions validation examines, and no other: a cache key it adds is a
  key of the primary paired with the mission registered under a candidate id; and when it
  returns, \<^verbatim>\<open>temporal_checks\<close> is the number of candidates, every candidate's mission has its
  temporal result in the cache, and the conflict entries are, in order, those of the
  candidates whose cached temporal result is true and whose cached spatial result is not
  empty.
\<close>

theorem candidates_are_boundary_buckets:
  assumes "set_order dedup"
  shows "set (relevant_drones dedup s p) =
           {i. \<exists>t bucket. map_of (time_index s) t = Some bucket
                 \<and> start_time p \<le> t \<and> t \<le> end_time p \<and> i \<in> set bucket}
       \<and> distinct (relevant_drones dedup s p)
       \<and> fst ` set (conflict_cache (snd (validate_mission fl dedup now0 now1 s p)))
           \<subseteq> fst ` set (conflict_cache s) \<union> ids_keys s p (relevant_drones dedup s p)
       \<and> (\<forall>r s'. validate_mission fl dedup now0 now1 s p = (Inr r, s') \<longrightarrow>
             temporal_checks (perf r) = card (set (relevant_drones dedup s p))
             \<and> map conflicting_drone (conflicts r)
                 = filter (reported s' p) (relevant_drones dedup s p)
             \<and> (\<forall>i \<in> set (relevant_drones dedup s p).
                   \<exists>d v. map_of (simulated_drones s) i = Some d
                         \<and> map_of (conflict_cache s') (temporal_key p d) = Some v))"
proof -
  let ?r0 = "\<lparr>status = ''clear'', conflicts = [],
                 perf = \<lparr>spatial_checks = 0, temporal_checks = 0, cache_hits = 0,
                         total_drones = length (simulated_drones s),
                         validation_time = None\<rparr>\<rparr>"
  have d: "distinct (relevant_drones dedup s p)"
    using assms by (simp add: relevant_drones_def set_order_def)
  have "set (relevant_drones dedup s p) = set (gathered s p)"
    using assms by (simp add: relevant_drones_def set_order_def)
  then have g: "set (relevant_drones dedup s p) =
           {i. \<exists>t bucket. map_of (time_index s) t = Some bucket
                 \<and> start_time p \<le> t \<and> t \<le> end_time p \<and> i \<in> set bucket}"
    by (simp only: set_gathered)
  have k: "fst ` set (conflict_cache (snd (validate_mission fl dedup now0 now1 s p)))
           \<subseteq> fst ` set (conflict_cache s) \<union> ids_keys s p (relevant_drones dedup s p)"
    by (simp only: validate_mission_loop validate_loop_ids_keys)
  have c: "temporal_checks (perf r) = card (set (relevant_drones dedup s p))
             \<and> map conflicting_drone (conflicts r)
                 = filter (reported s' p) (relevant_drones dedup s p)
             \<and> (\<forall>i \<in> set (relevant_drones dedup s p).
                   \<exists>d v. map_of (simulated_drones s) i = Some d
                         \<and> map_of (conflict_cache s') (temporal_key p d) = Some v)"
    if run: "validate_mission fl dedup now0 now1 s p = (Inr r, s')" for r s'
  proof -
    obtain o1 sa where lp: "validate_loop fl p (relevant_drones dedup s p) ?r0 s = (o1, sa)" by force
    have "o1 \<noteq> Inl e" for e
      using run lp by (auto simp add: validate_mission_def Let_def get_time_range_def)
    then obtain ra where o1: "o1 = Inr ra" by (cases o1) blast+
    have r: "conflicts r = conflicts ra" and s': "s' = sa"
      using run lp o1 by (auto simp add: validate_mission_def Let_def get_time_range_def)
    have "map conflicting_drone (conflicts ra)
            = map conflicting_drone (conflicts ?r0) @ filter (reported sa p) (relevant_drones dedup s p)
          \<and> (\<forall>i \<in> set (relevant_drones dedup s p).
                 \<exists>d v. map_of (simulated_drones s) i = Some d
                       \<and> map_of (conflict_cache sa) (temporal_key p d) = Some v)"
      using lp o1 validate_loop_reported [of fl p "relevant_drones dedup s p" ?r0 s ra sa] by simp
    then show ?thesis
      using validate_mission_temporal_checks [OF run] d r s' by (simp add: distinct_card)
  qed
  show ?thesis using g d k c by blast
qed

text \<open>
  C7, at a concrete input: the mission \<open>wide_peer\<close> is registered first, hovers at the
  origin and has a window \<open>[-100, 200]\<close> that contains the primary's window \<open>[0, 10]\<close>; the
  only candidate is the peer, whose start instant 5 lies in the window, and the result and
  the cache mention the peer only.
\<close>

theorem candidates_are_boundary_buckets_witness:
  "set_order remdups
   \<and> map fst (simulated_drones engine3) = [''w'', ''s'']
   \<and> relevant_drones remdups engine3 near_primary = [''s'']
   \<and> distinct (relevant_drones remdups engine3 near_primary)
   \<and> validate_mission exact_arithmetic remdups 0 1 engine3 near_primary
       = (Inr \<lparr>status = ''conflict'',
           conflicts =
             [\<lparr>conflicting_drone = ''s'',
               conflict_locations =
                 CList [\<lparr>drone_id = ''s'', point = (0, 0, 0), ctype = ''spatial'', severity = ''high''\<rparr>],
               overlap = \<lparr>overlap_start = 5, overlap_end = 10\<rparr>\<rparr>],
           perf = \<lparr>spatial_checks = 1, temporal_checks = 1, cache_hits = 0, total_drones = 2,
                   validation_time = Some 1\<rparr>\<rparr>,
          engine3\<lparr>conflict_cache :=
            [(''temporal_p_s'', CBool True),
             (''spatial_p_s'',
              CList [\<lparr>drone_id = ''s'', point = (0, 0, 0), ctype = ''spatial'', severity = ''high''\<rparr>])]\<rparr>)"
proof -
  have run: "validate_mission exact_arithmetic remdups 0 1 engine3 near_primary
       = (Inr \<lparr>status = ''conflict'',
           conflicts =
             [\<lparr>conflicting_drone = ''s'',
               conflict_locations =
                 CList [\<lparr>drone_id = ''s'', point = (0, 0, 0), ctype = ''spatial'', severity = ''high''\<rparr>],
               overlap = \<lparr>overlap_start = 5, overlap_end = 10\<rparr>\<rparr>],
           perf = \<lparr>spatial_checks = 1, temporal_checks = 1, cache_hits = 0, total_drones = 2,
                   validation_time = Some 1\<rparr>\<rparr>,
          engine3\<lparr>conflict_cache :=
            [(''temporal_p_s'', CBool True),
             (''spatial_p_s'',
              CList [\<lparr>drone_id = ''s'', point = (0, 0, 0), ctype = ''spatial'', severity = ''high''\<rparr>])]\<rparr>)"
    by (simp add: engine3_eq validate_mission_def relevant_drones_def gathered_def
      get_time_range_def validate_step_def check_temporal_conflict_def check_spatial_conflict_def
      temporal_key_def spatial_key_def check_point_conflict_exact near_primary_def peer_def origin_def Let_def)
  have rd: "relevant_drones remdups engine3 near_primary = [''s'']"
    by (simp add: relevant_drones_def gathered_def get_time_range_def engine3_eq near_primary_def)
  have reg: "map fst (simulated_drones engine3) = [''w'', ''s'']"
    by (simp add: engine3_eq)
  have "distinct (relevant_drones remdups engine3 near_primary)"
    by (rule candidates_are_boundary_buckets
          [OF set_remdups_order, of engine3 near_primary exact_arithmetic 0 1,
           THEN conjunct2, THEN conjunct1])
  then show ?thesis
    using set_remdups_order run rd reg by simp
qed

section \<open>Registration\<close>

lemma set_update_subset: "set (AList.update k v al) \<subseteq> insert (k, v) (set al)"
  by (induction al) auto

lemma length_update:
  "length (AList.update k v al) = (if k \<in> fst ` set al then length al else Suc (length al))"
  by (induction al) auto

lemma map_of_index_time:
  "map_of (index_time i ti t) = (map_of ti)(t \<mapsto> bucket_of ti t @ [i])"
  by (cases "map_of ti t") (simp_all add: index_time_def bucket_of_def update_conv' Let_def)

lemma index_ids_update: "index_ids (AList.update t v ti) \<subseteq> set v \<union> index_ids ti"
proof
  fix i assume "i \<in> index_ids (AList.update t v ti)"
  then obtain k bucket where kb: "(k, bucket) \<in> set (AList.update t v ti)" and i: "i \<in> set bucket"
    by (auto simp: index_ids_def)
  from kb have "(k, bucket) = (t, v) \<or> (k, bucket) \<in> set ti"
    using set_update_subset [of t v ti] by blast
  then show "i \<in> set v \<union> index_ids ti"
    using i by (auto simp: index_ids_def)
qed

lemma index_ids_index_time: "index_ids (index_time i ti t) \<subseteq> insert i (index_ids ti)"
proof (cases "map_of ti t")
  case None
  then have "index_time i ti t = AList.update t [i] ti"
    by (simp add: index_time_def update_conv' Let_def)
  then show ?thesis
    using index_ids_update [of t "[i]" ti] by auto
next
  case (Some b)
  then have eq: "index_time i ti t = AList.update t (b @ [i]) ti"
    by (simp add: index_time_def Let_def)
  have "(t, b) \<in> set ti" using Some by (rule map_of_SomeD)
  then have "set b \<subseteq> index_ids ti" by (auto simp: index_ids_def)
  then show ?thesis
    using index_ids_update [of t "b @ [i]" ti] by (auto simp: eq)
qed

lemma index_ids_registered_iff:
  "index_ids_registered s \<longleftrightarrow> index_ids (time_index s) \<subseteq> fst ` set (simulated_drones s)"
proof -
  have keys: "map_of (simulated_drones s) i \<noteq> None \<longleftrightarrow> i \<in> fst ` set (simulated_drones s)" for i
    by (simp add: map_of_eq_None_iff)
  show ?thesis
    unfolding index_ids_registered_def index_ids_def list_all_iff keys by auto
qed

lemma update_indexes_registered:
  assumes "index_ids (time_index s) \<subseteq> fst ` set (simulated_drones s)"
    and "did d \<in> fst ` set (simulated_drones s)"
  shows "index_ids_registered (snd (update_indexes s d))"
proof (cases "KDTree ((case spatial_index s of None \<Rightarrow> [] | Some data \<Rightarrow> data)
                      @ map (\<lambda>wp. (wp_x wp, wp_y wp, wp_z wp)) (waypoints d))")
  case (Inl e)
  then have "snd (update_indexes s d) = s"
    by (auto simp: update_indexes_def Let_def split: option.splits)
  then show ?thesis using assms(1) by (simp add: index_ids_registered_iff)
next
  case (Inr tree)
  let ?ti = "index_time (did d) (index_time (did d) (time_index s) (start_time d)) (end_time d)"
  have s': "snd (update_indexes s d) = s\<lparr>spatial_index := Some tree, time_index := ?ti\<rparr>"
    using Inr by (auto simp: update_indexes_def Let_def get_time_range_def split: option.splits)
  have "index_ids ?ti \<subseteq> insert (did d) (index_ids (time_index s))"
    using index_ids_index_time [of "did d" "index_time (did d) (time_index s) (start_time d)" "end_time d"]
      index_ids_index_time [of "did d" "time_index s" "start_time d"]
    by auto
  then show ?thesis using assms by (auto simp: index_ids_registered_iff s')
qed

lemma add_simulated_drone_registered:
  assumes "index_ids_registered s"
  shows "index_ids_registered (snd (add_simulated_drone s d))"
proof (cases "int (length (simulated_drones s)) \<ge> max_simulated_drones s")
  case True
  then show ?thesis using assms by (simp add: add_simulated_drone_def)
next
  case False
  let ?s1 = "s\<lparr>simulated_drones := AList.update (did d) d (simulated_drones s)\<rparr>"
  have "index_ids (time_index ?s1) \<subseteq> fst ` set (simulated_drones ?s1)"
    using assms by (auto simp: index_ids_registered_iff dom_update)
  moreover have "did d \<in> fst ` set (simulated_drones ?s1)" by (simp add: dom_update)
  ultimately have "index_ids_registered (snd (update_indexes ?s1 d))"
    by (rule update_indexes_registered)
  then show ?thesis using False by (simp add: add_simulated_drone_def)
qed

lemma validate_mission_registered:
  assumes "index_ids_registered s"
  shows "index_ids_registered (snd (validate_mission fl dedup n0 n1 s p))"
  using assms cache_extends_fields(1,2) [OF validate_mission_extends [of s fl dedup n0 n1 p]]
  by (simp add: index_ids_registered_def)

lemma reachable_registered: "reachable s \<Longrightarrow> index_ids_registered s"
proof (induction rule: reachable.induct)
  case (init buffer max_drones)
  then show ?case by (simp add: index_ids_registered_def DeconflictionSystem_init_def)
next
  case (add s drone)
  then show ?case by (simp add: add_simulated_drone_registered)
next
  case (validate s fl dedup now0 now1 primary_drone)
  then show ?case by (simp add: validate_mission_registered)
qed

lemma point_distance_total:
  assumes "no_overflow fl"
  shows "point_distance fl a b \<noteq> None"
proof -
  have sq: "\<exists>y. fsquare fl v = Some y" for v using assms by (auto simp: no_overflow_def)
  have rt: "\<exists>y. froot fl v = Some y" for v using assms by (auto simp: no_overflow_def)
  obtain dx2 where x: "fsquare fl (fsub fl (wp_x a) (wp_x b)) = Some dx2" using sq by blast
  obtain dy2 where y: "fsquare fl (fsub fl (wp_y a) (wp_y b)) = Some dy2" using sq by blast
  obtain dz2 where z: "fsquare fl (fsub fl (wp_z a) (wp_z b)) = Some dz2" using sq by blast
  obtain distance where "froot fl (fadd fl (fadd fl dx2 dy2) dz2) = Some distance" using rt by blast
  then show ?thesis using x y z by (simp add: point_distance_def Let_def)
qed

lemma scan_primary_outcome:
  "(\<exists>found. scan_primary fl s d xs [] = Inr found)
   \<or> (\<not> no_overflow fl \<and> scan_primary fl s d xs [] = Inl OverflowError)"
proof (cases "\<forall>wp1 \<in> set xs. \<forall>wp2 \<in> set (waypoints d). point_distance fl wp1 wp2 \<noteq> None")
  case True
  have "\<exists>found. scan_primary fl s d xs [] = Inr found"
    by (simp only: scan_primary_eq if_P [OF True]) blast
  then show ?thesis by blast
next
  case False
  then have "\<not> no_overflow fl" using point_distance_total by blast
  moreover have "scan_primary fl s d xs [] = Inl OverflowError"
    by (simp only: scan_primary_eq if_not_P [OF False])
  ultimately show ?thesis by blast
qed

lemma check_spatial_conflict_outcome:
  "(\<exists>v. fst (check_spatial_conflict fl s p d) = Inr v)
   \<or> (\<not> no_overflow fl \<and> fst (check_spatial_conflict fl s p d) = Inl OverflowError)"
proof (cases "map_of (conflict_cache s) (spatial_key p d)")
  case (Some cached)
  then show ?thesis by (simp add: check_spatial_conflict_def)
next
  case None
  show ?thesis
    using scan_primary_outcome [of fl s d "waypoints p"] None
    by (auto simp: check_spatial_conflict_def)
qed

lemma validate_step_outcome:
  assumes "i \<in> fst ` set (simulated_drones s)"
  shows "(\<exists>r1. fst (validate_step fl p i r s) = Inr r1)
         \<or> (\<not> no_overflow fl \<and> fst (validate_step fl p i r s) = Inl OverflowError)"
proof -
  obtain d where d: "map_of (simulated_drones s) i = Some d"
    using assms by (metis map_of_eq_None_iff not_Some_eq)
  obtain tc s1 where t: "check_temporal_conflict s p d = (tc, s1)" by force
  obtain so s2 where sp: "check_spatial_conflict fl s1 p d = (so, s2)" by force
  have out: "(\<exists>v. so = Inr v) \<or> (\<not> no_overflow fl \<and> so = Inl OverflowError)"
    using check_spatial_conflict_outcome [of fl s1 p d] sp by simp
  show ?thesis
  proof (cases "truthy tc")
    case False
    then show ?thesis using d t by (simp add: validate_step_def Let_def)
  next
    case True
    show ?thesis
    proof (cases so)
      case (Inl e)
      then have "e = OverflowError" and "\<not> no_overflow fl" using out by auto
      then show ?thesis using d t sp True Inl by (simp add: validate_step_def Let_def)
    next
      case (Inr v)
      then show ?thesis using d t sp True by (simp add: validate_step_def Let_def)
    qed
  qed
qed

lemma validate_loop_outcome:
  "set ids \<subseteq> fst ` set (simulated_drones s) \<Longrightarrow>
   (\<exists>r'. fst (validate_loop fl p ids r s) = Inr r')
   \<or> (\<not> no_overflow fl \<and> fst (validate_loop fl p ids r s) = Inl OverflowError)"
proof (induction ids arbitrary: r s)
  case Nil
  then show ?case by simp
next
  case (Cons i ids)
  obtain o1 s1 where st: "validate_step fl p i r s = (o1, s1)" by force
  have one: "(\<exists>r1. o1 = Inr r1) \<or> (\<not> no_overflow fl \<and> o1 = Inl OverflowError)"
    using validate_step_outcome [of i s fl p r] Cons.prems st by auto
  show ?case
  proof (cases o1)
    case (Inl e)
    then show ?thesis using one st by simp
  next
    case (Inr r1)
    have "cache_extends s s1" using validate_step_extends [of s fl p i r] st by simp
    then have "simulated_drones s1 = simulated_drones s" by (rule cache_extends_fields(1))
    then have "set ids \<subseteq> fst ` set (simulated_drones s1)" using Cons.prems by simp
    then have "(\<exists>r'. fst (validate_loop fl p ids r1 s1) = Inr r')
         \<or> (\<not> no_overflow fl \<and> fst (validate_loop fl p ids r1 s1) = Inl OverflowError)"
      by (rule Cons.IH)
    then show ?thesis using st Inr by simp
  qed
qed

lemma validate_mission_outcome:
  assumes "index_ids_registered s" and "set_order dedup"
  shows "(\<exists>r. fst (validate_mission fl dedup n0 n1 s p) = Inr r)
         \<or> (\<not> no_overflow fl \<and> fst (validate_mission fl dedup n0 n1 s p) = Inl OverflowError)"
proof -
  let ?r0 = "\<lparr>status = ''clear'', conflicts = [],
                 perf = \<lparr>spatial_checks = 0, temporal_checks = 0, cache_hits = 0,
                         total_drones = length (simulated_drones s),
                         validation_time = None\<rparr>\<rparr>"
  have "set (gathered s p) \<subseteq> index_ids (time_index s)"
    by (auto simp: set_gathered index_ids_def dest: map_of_SomeD)
  then have "set (relevant_drones dedup s p) \<subseteq> fst ` set (simulated_drones s)"
    using assms by (auto simp: relevant_drones_def set_order_def index_ids_registered_iff)
  then have "(\<exists>r'. fst (validate_loop fl p (relevant_drones dedup s p) ?r0 s) = Inr r')
   \<or> (\<not> no_overflow fl \<and> fst (validate_loop fl p (relevant_drones dedup s p) ?r0 s) = Inl OverflowError)"
    by (rule validate_loop_outcome)
  then show ?thesis
    by (auto simp: validate_mission_def Let_def get_time_range_def split: prod.splits)
qed

lemma reachable_engine1: "reachable engine1"
  unfolding engine1_def engine0_def by (intro reachable.add reachable.init)

lemma reachable_engine2: "reachable engine2"
  unfolding engine2_def by (intro reachable.validate reachable_engine1)

text \<open>
  C9. In every state reached from a new engine by registrations and validations, each id
  in a bucket of the temporal index is a key of the registry; hence validation never raises
  \<^verbatim>\<open>KeyError\<close>, and it returns a result whenever no power of the arithmetic raises.
\<close>

theorem index_ids_always_registered:
  assumes "reachable s"
  shows "index_ids_registered s
       \<and> (set_order dedup \<longrightarrow>
             (\<forall>k. fst (validate_mission fl dedup now0 now1 s p) \<noteq> Inl (KeyError k))
             \<and> (no_overflow fl \<longrightarrow> (\<exists>r. fst (validate_mission fl dedup now0 now1 s p) = Inr r)))"
proof -
  have inv: "index_ids_registered s" using assms by (rule reachable_registered)
  have "(\<forall>k. fst (validate_mission fl dedup now0 now1 s p) \<noteq> Inl (KeyError k))
             \<and> (no_overflow fl \<longrightarrow> (\<exists>r. fst (validate_mission fl dedup now0 now1 s p) = Inr r))"
    if "set_order dedup"
    using validate_mission_outcome [OF inv that, of fl now0 now1 p] by auto
  then show ?thesis using inv by blast
qed

text \<open>C9, at a concrete input: the engine after one registration and one validation.\<close>

theorem index_ids_always_registered_witness:
  "reachable engine2 \<and> set_order remdups \<and> no_overflow exact_arithmetic
   \<and> index_ids_registered engine2
   \<and> fst (validate_mission exact_arithmetic remdups 7 9 engine2 late_primary)
       = Inr \<lparr>status = ''clear'', conflicts = [],
              perf = \<lparr>spatial_checks = 0, temporal_checks = 0, cache_hits = 0,
                      total_drones = 1, validation_time = Some (- 91)\<rparr>\<rparr>"
proof -
  have "fst (validate_mission exact_arithmetic remdups 7 9 engine2 late_primary)
       = Inr \<lparr>status = ''clear'', conflicts = [],
              perf = \<lparr>spatial_checks = 0, temporal_checks = 0, cache_hits = 0,
                      total_drones = 1, validation_time = Some (- 91)\<rparr>\<rparr>"
    by (simp add: engine2_eq engine1_eq validate_mission_def relevant_drones_def gathered_def
        get_time_range_def late_primary_def Let_def)
  then show ?thesis
    using index_ids_always_registered [OF reachable_engine2, of remdups exact_arithmetic 7 9 late_primary]
      reachable_engine2 set_remdups_order no_overflow_exact
    by simp
qed

lemma update_indexes_registry:
  "simulated_drones (snd (update_indexes s d)) = simulated_drones s
   \<and> max_simulated_drones (snd (update_indexes s d)) = max_simulated_drones s
   \<and> conflict_cache (snd (update_indexes s d)) = conflict_cache s
   \<and> safety_buffer (snd (update_indexes s d)) = safety_buffer s"
  by (simp add: update_indexes_def Let_def get_time_range_def split: sum.splits option.splits)

lemma add_simulated_drone_within_capacity:
  assumes "within_capacity s"
  shows "within_capacity (snd (add_simulated_drone s d))"
proof (cases "int (length (simulated_drones s)) \<ge> max_simulated_drones s")
  case True
  then show ?thesis using assms by (simp add: add_simulated_drone_def)
next
  case False
  let ?s1 = "s\<lparr>simulated_drones := AList.update (did d) d (simulated_drones s)\<rparr>"
  have "length (simulated_drones ?s1) \<le> Suc (length (simulated_drones s))"
    by (simp add: length_update)
  then have "within_capacity ?s1" using False by (simp add: within_capacity_def)
  then have "within_capacity (snd (update_indexes ?s1 d))"
    using update_indexes_registry [of ?s1 d] by (simp add: within_capacity_def)
  then show ?thesis using False by (simp add: add_simulated_drone_def)
qed

lemma reachable_within_capacity: "reachable s \<Longrightarrow> within_capacity s"
proof (induction rule: reachable.induct)
  case (init buffer max_drones)
  then show ?case by (simp add: within_capacity_def DeconflictionSystem_init_def)
next
  case (add s drone)
  then show ?case by (simp add: add_simulated_drone_within_capacity)
next
  case (validate s fl dedup now0 now1 primary_drone)
  then show ?case
    using cache_extends_fields(1,5) [OF validate_mission_extends [of s fl dedup now0 now1 primary_drone]]
    by (simp add: within_capacity_def)
qed

lemma update_indexes_succeeds:
  "waypoints d \<noteq> [] \<Longrightarrow> fst (update_indexes s d) = Inr ()"
  by (simp add: update_indexes_def KDTree_def Let_def get_time_range_def split: option.splits)

lemma add_simulated_drone_succeeds:
  assumes "int (length (simulated_drones s)) < max_simulated_drones s" and "waypoints d \<noteq> []"
  shows "fst (add_simulated_drone s d) = Inr ()"
    and "simulated_drones (snd (add_simulated_drone s d))
           = AList.update (did d) d (simulated_drones s)"
    and "max_simulated_drones (snd (add_simulated_drone s d)) = max_simulated_drones s"
  using assms
    update_indexes_registry [of "s\<lparr>simulated_drones := AList.update (did d) d (simulated_drones s)\<rparr>" d]
  by (simp_all add: add_simulated_drone_def update_indexes_succeeds)

lemma add_simulated_drone_full:
  "int (length (simulated_drones s)) \<ge> max_simulated_drones s \<Longrightarrow>
   add_simulated_drone s d = (Inl (ValueError (MaximumDronesExceeded (max_simulated_drones s))), s)"
  by (simp add: add_simulated_drone_def)

lemma register_all_fills:
  "distinct (map did ds) \<Longrightarrow> set (map did ds) \<inter> fst ` set (simulated_drones s) = {} \<Longrightarrow>
   \<forall>d \<in> set ds. waypoints d \<noteq> [] \<Longrightarrow>
   int (length (simulated_drones s)) + int (length ds) \<le> max_simulated_drones s \<Longrightarrow>
   fst (register_all s ds) = replicate (length ds) (Inr ())
   \<and> map fst (simulated_drones (snd (register_all s ds))) = map fst (simulated_drones s) @ map did ds
   \<and> max_simulated_drones (snd (register_all s ds)) = max_simulated_drones s"
proof (induction ds arbitrary: s)
  case Nil
  then show ?case by simp
next
  case (Cons d ds)
  let ?s1 = "snd (add_simulated_drone s d)"
  have below: "int (length (simulated_drones s)) < max_simulated_drones s"
    using Cons.prems(4) by simp
  have w: "waypoints d \<noteq> []" using Cons.prems(3) by simp
  have new: "did d \<notin> fst ` set (simulated_drones s)" using Cons.prems(2) by auto
  have ok: "fst (add_simulated_drone s d) = Inr ()"
    and reg: "simulated_drones ?s1 = AList.update (did d) d (simulated_drones s)"
    and mx: "max_simulated_drones ?s1 = max_simulated_drones s"
    using add_simulated_drone_succeeds [OF below w] by simp_all
  have keys: "map fst (simulated_drones ?s1) = map fst (simulated_drones s) @ [did d]"
    using new by (simp add: reg update_keys)
  have len: "length (simulated_drones ?s1) = Suc (length (simulated_drones s))"
    using new by (simp add: reg length_update)
  have "fst (register_all ?s1 ds) = replicate (length ds) (Inr ())
   \<and> map fst (simulated_drones (snd (register_all ?s1 ds))) = map fst (simulated_drones ?s1) @ map did ds
   \<and> max_simulated_drones (snd (register_all ?s1 ds)) = max_simulated_drones ?s1"
  proof (rule Cons.IH)
    show "distinct (map did ds)" using Cons.prems(1) by simp
    have "fst ` set (simulated_drones ?s1) = insert (did d) (fst ` set (simulated_drones s))"
      by (simp add: reg dom_update)
    then show "set (map did ds) \<inter> fst ` set (simulated_drones ?s1) = {}"
      using Cons.prems(1,2) by auto
    show "\<forall>d \<in> set ds. waypoints d \<noteq> []" using Cons.prems(3) by simp
    show "int (length (simulated_drones ?s1)) + int (length ds) \<le> max_simulated_drones ?s1"
      using Cons.prems(4) len mx by simp
  qed
  then show ?case
    using ok keys mx by (simp add: split_beta Let_def)
qed

text \<open>
  C4. For an engine with maximum N \<ge> 0 (1000 by default), in any state reached from a new
  engine: registration fails with the capacity error exactly when the registry holds N
  missions, and then changes nothing. Below N, registering a mission (with at least one
  waypoint) succeeds, keeps every other registered mission, and adds one to the number of
  registered missions when its id is new. So with N - 1 registered the N-th mission with a
  new id is accepted, the registry then holds N, and the next registration fails; and N
  missions with distinct ids registered on a new engine are all accepted, after which the
  (N+1)-th registration fails.
\<close>

theorem capacity_limit:
  assumes "reachable s" and "0 \<le> max_simulated_drones s"
  shows "(fst (add_simulated_drone s d)
            = Inl (ValueError (MaximumDronesExceeded (max_simulated_drones s)))
          \<longleftrightarrow> int (length (simulated_drones s)) = max_simulated_drones s)
       \<and> (int (length (simulated_drones s)) = max_simulated_drones s
            \<longrightarrow> snd (add_simulated_drone s d) = s)
       \<and> (int (length (simulated_drones s)) < max_simulated_drones s \<and> waypoints d \<noteq> []
            \<longrightarrow> fst (add_simulated_drone s d) = Inr ()
                \<and> map_of (simulated_drones (snd (add_simulated_drone s d)))
                    = (map_of (simulated_drones s))(did d \<mapsto> d)
                \<and> length (simulated_drones (snd (add_simulated_drone s d)))
                    = (if map_of (simulated_drones s) (did d) = None
                       then Suc (length (simulated_drones s)) else length (simulated_drones s))
                \<and> max_simulated_drones (snd (add_simulated_drone s d)) = max_simulated_drones s)
       \<and> (int (length (simulated_drones s)) = max_simulated_drones s - 1 \<and> waypoints d \<noteq> []
          \<and> map_of (simulated_drones s) (did d) = None
            \<longrightarrow> fst (add_simulated_drone s d) = Inr ()
                \<and> int (length (simulated_drones (snd (add_simulated_drone s d)))) = max_simulated_drones s
                \<and> add_simulated_drone (snd (add_simulated_drone s d)) d'
                    = (Inl (ValueError (MaximumDronesExceeded (max_simulated_drones s))),
                       snd (add_simulated_drone s d)))
       \<and> (distinct (map did ds) \<and> (\<forall>m \<in> set ds. waypoints m \<noteq> []) \<and> int (length ds) = n
            \<longrightarrow> fst (register_all (DeconflictionSystem_init b n) ds) = replicate (length ds) (Inr ())
                \<and> map fst (simulated_drones (snd (register_all (DeconflictionSystem_init b n) ds)))
                    = map did ds
                \<and> add_simulated_drone (snd (register_all (DeconflictionSystem_init b n) ds)) d'
                    = (Inl (ValueError (MaximumDronesExceeded n)),
                       snd (register_all (DeconflictionSystem_init b n) ds)))
       \<and> max_simulated_drones DeconflictionSystem_default = 1000"
proof -
  have le: "int (length (simulated_drones s)) \<le> max_simulated_drones s"
    using reachable_within_capacity [OF assms(1)] assms(2) by (simp add: within_capacity_def)
  have no_cap: "fst (update_indexes s1 d) \<noteq> Inl (ValueError (MaximumDronesExceeded k))" for s1 k
    by (simp add: update_indexes_def KDTree_def Let_def get_time_range_def split: option.splits)
  have a: "fst (add_simulated_drone s d)
            = Inl (ValueError (MaximumDronesExceeded (max_simulated_drones s)))
          \<longleftrightarrow> int (length (simulated_drones s)) = max_simulated_drones s"
    using le no_cap by (auto simp: add_simulated_drone_def)
  have b: "int (length (simulated_drones s)) = max_simulated_drones s
            \<longrightarrow> snd (add_simulated_drone s d) = s"
    by (simp add: add_simulated_drone_def)
  have keys: "map_of (simulated_drones s) (did d) = None \<longleftrightarrow> did d \<notin> fst ` set (simulated_drones s)"
    by (simp add: map_of_eq_None_iff)
  have c: "fst (add_simulated_drone s d) = Inr ()
                \<and> map_of (simulated_drones (snd (add_simulated_drone s d)))
                    = (map_of (simulated_drones s))(did d \<mapsto> d)
                \<and> length (simulated_drones (snd (add_simulated_drone s d)))
                    = (if map_of (simulated_drones s) (did d) = None
                       then Suc (length (simulated_drones s)) else length (simulated_drones s))
                \<and> max_simulated_drones (snd (add_simulated_drone s d)) = max_simulated_drones s"
    if "int (length (simulated_drones s)) < max_simulated_drones s" and "waypoints d \<noteq> []"
    using add_simulated_drone_succeeds [OF that] keys by (simp add: update_conv' length_update)
  have e: "fst (add_simulated_drone s d) = Inr ()
                \<and> int (length (simulated_drones (snd (add_simulated_drone s d)))) = max_simulated_drones s
                \<and> add_simulated_drone (snd (add_simulated_drone s d)) d'
                    = (Inl (ValueError (MaximumDronesExceeded (max_simulated_drones s))),
                       snd (add_simulated_drone s d))"
    if h: "int (length (simulated_drones s)) = max_simulated_drones s - 1" "waypoints d \<noteq> []"
      "map_of (simulated_drones s) (did d) = None"
  proof -
    have below: "int (length (simulated_drones s)) < max_simulated_drones s" using h(1) by simp
    have ok: "fst (add_simulated_drone s d) = Inr ()"
      and len: "int (length (simulated_drones (snd (add_simulated_drone s d)))) = max_simulated_drones s"
      and mx: "max_simulated_drones (snd (add_simulated_drone s d)) = max_simulated_drones s"
      using c [OF below h(2)] h(1,3) by simp_all
    have "add_simulated_drone (snd (add_simulated_drone s d)) d'
            = (Inl (ValueError (MaximumDronesExceeded
                  (max_simulated_drones (snd (add_simulated_drone s d))))),
               snd (add_simulated_drone s d))"
      by (rule add_simulated_drone_full) (simp add: len mx)
    then show ?thesis using ok len mx by simp
  qed
  have f: "fst (register_all (DeconflictionSystem_init b n) ds) = replicate (length ds) (Inr ())
                \<and> map fst (simulated_drones (snd (register_all (DeconflictionSystem_init b n) ds)))
                    = map did ds
                \<and> add_simulated_drone (snd (register_all (DeconflictionSystem_init b n) ds)) d'
                    = (Inl (ValueError (MaximumDronesExceeded n)),
                       snd (register_all (DeconflictionSystem_init b n) ds))"
    if h: "distinct (map did ds)" "\<forall>m \<in> set ds. waypoints m \<noteq> []" "int (length ds) = n"
  proof -
    let ?s0 = "DeconflictionSystem_init b n"
    have fill: "fst (register_all ?s0 ds) = replicate (length ds) (Inr ())
         \<and> map fst (simulated_drones (snd (register_all ?s0 ds))) = map fst (simulated_drones ?s0) @ map did ds
         \<and> max_simulated_drones (snd (register_all ?s0 ds)) = max_simulated_drones ?s0"
      using h by (intro register_all_fills) (simp_all add: DeconflictionSystem_init_def)
    then have keys: "map fst (simulated_drones (snd (register_all ?s0 ds))) = map did ds"
      and mx: "max_simulated_drones (snd (register_all ?s0 ds)) = n"
      by (simp_all add: DeconflictionSystem_init_def)
    have "length (simulated_drones (snd (register_all ?s0 ds))) = length ds"
      using keys by (metis length_map)
    then have "add_simulated_drone (snd (register_all ?s0 ds)) d'
            = (Inl (ValueError (MaximumDronesExceeded
                  (max_simulated_drones (snd (register_all ?s0 ds))))),
               snd (register_all ?s0 ds))"
      using h(3) mx by (intro add_simulated_drone_full) simp
    then show ?thesis using fill keys mx by simp
  qed
  have g: "max_simulated_drones DeconflictionSystem_default = 1000"
    by (simp add: DeconflictionSystem_default_def DeconflictionSystem_init_def)
  show ?thesis using a b c e f g by blast
qed

text \<open>
  C4, at a concrete input: an engine with maximum 2 accepts two missions and rejects the
  third.
\<close>

theorem capacity_limit_witness:
  "reachable small1 \<and> 0 \<le> max_simulated_drones small1
   \<and> int (length (simulated_drones small1)) = max_simulated_drones small1 - 1
   \<and> waypoints peer \<noteq> [] \<and> map_of (simulated_drones small1) (did peer) = None
   \<and> fst (add_simulated_drone small1 peer) = Inr ()
   \<and> map fst (simulated_drones small2) = [''w'', ''s'']
   \<and> add_simulated_drone small2 far_primary = (Inl (ValueError (MaximumDronesExceeded 2)), small2)
   \<and> distinct (map did [wide_peer, peer]) \<and> int (length [wide_peer, peer]) = 2
   \<and> fst (register_all small0 [wide_peer, peer]) = [Inr (), Inr ()]
   \<and> snd (register_all small0 [wide_peer, peer]) = small2"
proof -
  have r0: "reachable small0" unfolding small0_def by (rule reachable.init)
  have r1: "reachable small1" unfolding small1_def by (intro reachable.add r0)
  have m1: "0 \<le> max_simulated_drones small1" by (simp add: small1_eq)
  have h1: "int (length (simulated_drones small1)) = max_simulated_drones small1 - 1"
    by (simp add: small1_eq)
  have w: "waypoints peer \<noteq> []" by (simp add: peer_def)
  have new: "map_of (simulated_drones small1) (did peer) = None"
    by (simp add: small1_eq peer_def)
  have mx: "max_simulated_drones small1 = 2" by (simp add: small1_eq)
  have d: "distinct (map did [wide_peer, peer])" by (simp add: wide_peer_def peer_def)
  have all: "snd (register_all small0 [wide_peer, peer]) = small2"
    by (simp add: small2_def small1_def split_beta Let_def)
  have "fst (add_simulated_drone small1 peer) = Inr ()
        \<and> add_simulated_drone small2 far_primary = (Inl (ValueError (MaximumDronesExceeded 2)), small2)"
    using capacity_limit [OF r1 m1, of peer far_primary] h1 w new mx by (simp add: small2_def)
  moreover have "fst (register_all small0 [wide_peer, peer]) = [Inr (), Inr ()]"
    using capacity_limit [OF r1 m1, of peer far_primary "[wide_peer, peer]" 2 10] d w
    by (simp add: small0_def wide_peer_def)
  ultimately show ?thesis
    using r1 m1 h1 w new d all by (simp add: small2_eq)
qed

text \<open>
  C3 as stated fails: registering a mission whose id is already a key of the registry
  succeeds, replaces the registered mission, and adds the id to the temporal index again.
\<close>

theorem duplicate_id_counterexample:
  "map_of (simulated_drones engine1) (did peer_again) = Some peer
   \<and> add_simulated_drone engine1 peer_again =
       (Inr (),
        \<lparr>safety_buffer = 10, max_simulated_drones = 1000,
         simulated_drones = [(''s'', peer_again)],
         spatial_index = Some [(0, 0, 0), (7, 0, 0)],
         time_index = [(5, [''s'']), (15, [''s'', ''s'']), (30, [''s''])],
         conflict_cache = []\<rparr>)"
  by (simp add: engine1_eq add_simulated_drone_def update_indexes_def KDTree_def index_time_def
      get_time_range_def peer_again_def origin_def Let_def)

text \<open>
  C3, as the code has it. Below capacity, registering a mission (with at least one
  waypoint) whose id is already a key of the registry succeeds: the mission replaces the
  one registered under that id, the number of registered missions stays the same, the id is
  appended to the buckets of the mission's start and end instants, and the conflict cache,
  the safety buffer and the capacity limit are unchanged.
\<close>

theorem duplicate_id_overwrites:
  assumes "map_of (simulated_drones s) (did m) \<noteq> None"
    and "int (length (simulated_drones s)) < max_simulated_drones s"
    and "waypoints m \<noteq> []"
  shows "(case add_simulated_drone s m of
            (outcome, s') \<Rightarrow>
              outcome = Inr ()
              \<and> map_of (simulated_drones s') = (map_of (simulated_drones s))(did m \<mapsto> m)
              \<and> length (simulated_drones s') = length (simulated_drones s)
              \<and> map_of (time_index s') =
                  (map_of (time_index s))
                    (start_time m \<mapsto> bucket_of (time_index s) (start_time m) @ [did m],
                     end_time m \<mapsto>
                       (if end_time m = start_time m
                        then bucket_of (time_index s) (start_time m) @ [did m]
                        else bucket_of (time_index s) (end_time m)) @ [did m])
              \<and> conflict_cache s' = conflict_cache s
              \<and> safety_buffer s' = safety_buffer s
              \<and> max_simulated_drones s' = max_simulated_drones s)"
proof -
  let ?s1 = "s\<lparr>simulated_drones := AList.update (did m) m (simulated_drones s)\<rparr>"
  let ?ti = "index_time (did m) (index_time (did m) (time_index s) (start_time m)) (end_time m)"
  obtain tree where tree: "KDTree ((case spatial_index s of None \<Rightarrow> [] | Some data \<Rightarrow> data)
                      @ map (\<lambda>wp. (wp_x wp, wp_y wp, wp_z wp)) (waypoints m)) = Inr tree"
    using assms(3) by (simp add: KDTree_def)
  have upd: "update_indexes ?s1 m = (Inr (), ?s1\<lparr>spatial_index := Some tree, time_index := ?ti\<rparr>)"
    using tree by (auto simp: update_indexes_def Let_def get_time_range_def split: option.splits)
  have add: "add_simulated_drone s m = (Inr (), ?s1\<lparr>spatial_index := Some tree, time_index := ?ti\<rparr>)"
    using assms(2) upd by (simp add: add_simulated_drone_def)
  have key: "did m \<in> fst ` set (simulated_drones s)"
    using assms(1) by (simp add: map_of_eq_None_iff)
  have ti: "map_of ?ti =
                  (map_of (time_index s))
                    (start_time m \<mapsto> bucket_of (time_index s) (start_time m) @ [did m],
                     end_time m \<mapsto>
                       (if end_time m = start_time m
                        then bucket_of (time_index s) (start_time m) @ [did m]
                        else bucket_of (time_index s) (end_time m)) @ [did m])"
    by (simp add: map_of_index_time bucket_of_def)
  show ?thesis
    unfolding add using key ti by (simp add: update_conv' length_update)
qed

text \<open>C3, at a concrete input: the peer registered again with the window \<open>[15, 30]\<close>.\<close>

theorem duplicate_id_overwrites_witness:
  "map_of (simulated_drones engine1) (did peer_again) \<noteq> None
   \<and> int (length (simulated_drones engine1)) < max_simulated_drones engine1
   \<and> waypoints peer_again \<noteq> []
   \<and> fst (add_simulated_drone engine1 peer_again) = Inr ()
   \<and> map_of (simulated_drones (snd (add_simulated_drone engine1 peer_again))) ''s'' = Some peer_again
   \<and> map_of (time_index (snd (add_simulated_drone engine1 peer_again))) 15 = Some [''s'', ''s'']"
proof -
  have h1: "map_of (simulated_drones engine1) (did peer_again) \<noteq> None"
    and h2: "int (length (simulated_drones engine1)) < max_simulated_drones engine1"
    and h3: "waypoints peer_again \<noteq> []"
    by (simp_all add: engine1_eq peer_again_def)
  show ?thesis
    using h1 h2 h3 duplicate_id_overwrites [OF h1 h2 h3]
    by (auto simp: engine1_eq peer_again_def bucket_of_def split: prod.splits)
qed

end
